theory Spec2Isabelle
  imports Main "HOL-Library.Monad_Syntax" "HOL-Library.Multiset" "HOL-Library.Product_Lexorder"
begin

unbundle bit_operations_syntax

section \<open>Connect6 engine: board model, hashing, transposition table, threats\<close>

subsection \<open>Constants and records of defines.py\<close>

text \<open>
  Modelled from the spec: the module \<^verbatim>\<open>defines.py\<close> (class \<^verbatim>\<open>Defines\<close> with the cell
  values, \<^verbatim>\<open>StonePosition\<close> and \<^verbatim>\<open>StoneMove\<close>) is imported by every source file but is
  not among the sources. A cell holds one of the four values \<^verbatim>\<open>Defines.NOSTONE\<close>,
  \<^verbatim>\<open>Defines.BLACK\<close>, \<^verbatim>\<open>Defines.WHITE\<close>, \<^verbatim>\<open>Defines.BORDER\<close>; only their being
  distinct is used. A move is an ordered pair of coordinates plus a heuristic score;
  \<^verbatim>\<open>move.positions\<close> is the two-element list of its coordinates.
\<close>

datatype cell = NOSTONE | BLACK | WHITE | BORDER

record stone_move =
  first_pos :: "int \<times> int"
  second_pos :: "int \<times> int"
  score :: int

definition positions :: "stone_move \<Rightarrow> (int \<times> int) list" where
  "positions m = [first_pos m, second_pos m]"

subsection \<open>The board: a list of rows, read and written with Python's indexing\<close>

text \<open>
  The board is a Python list of lists. \<open>py_get\<close> is \<^verbatim>\<open>xs[i]\<close>: a negative index counts
  from the end, and \<open>None\<close> stands for the IndexError of an index out of range.
  \<open>py_set\<close> is \<^verbatim>\<open>xs[i] = v\<close>. Rows are not aliased (the engine builds every board with
  one fresh list per row), so writing a cell is writing the updated row back.
\<close>

type_synonym board = "cell list list"

definition py_index :: "'a list \<Rightarrow> int \<Rightarrow> nat option" where
  "py_index xs i =
     (if 0 \<le> i \<and> i < int (length xs) then Some (nat i)
      else if i < 0 \<and> - int (length xs) \<le> i then Some (nat (i + int (length xs)))
      else None)"

definition py_get :: "'a list \<Rightarrow> int \<Rightarrow> 'a option" where
  "py_get xs i = map_option (\<lambda>j. xs ! j) (py_index xs i)"

definition py_set :: "'a list \<Rightarrow> int \<Rightarrow> 'a \<Rightarrow> 'a list option" where
  "py_set xs i v = map_option (\<lambda>j. xs[j := v]) (py_index xs i)"

definition cell_at :: "board \<Rightarrow> int \<Rightarrow> int \<Rightarrow> cell option" where
  "cell_at b x y = (case py_get b x of None \<Rightarrow> None | Some row \<Rightarrow> py_get row y)"

definition set_cell :: "board \<Rightarrow> int \<Rightarrow> int \<Rightarrow> cell \<Rightarrow> board option" where
  "set_cell b x y v =
     (case py_get b x of
        None \<Rightarrow> None
      | Some row \<Rightarrow> (case py_set row y v of None \<Rightarrow> None | Some row' \<Rightarrow> py_set b x row'))"

text \<open>The test \<^verbatim>\<open>1 <= x <= 19 and 1 <= y <= 19\<close> that guards most reads and writes.\<close>

definition in_play :: "int \<Rightarrow> int \<Rightarrow> bool" where
  "in_play x y \<longleftrightarrow> 1 \<le> x \<and> x \<le> 19 \<and> 1 \<le> y \<and> y \<le> 19"

text \<open>The shape every board of the engine has: 21 rows of 21 cells.\<close>

definition board_dims :: "board \<Rightarrow> bool" where
  "board_dims b \<longleftrightarrow> length b = 21 \<and> list_all (\<lambda>row. length row = 21) b"

text \<open>
  The board \<^verbatim>\<open>init_board\<close> of tools.py leaves behind: \<^verbatim>\<open>Defines.BORDER\<close> on rows and
  columns 0 and 20, \<^verbatim>\<open>Defines.NOSTONE\<close> on the 19 by 19 interior.
\<close>

definition empty_board :: board where
  "empty_board =
     replicate 21 BORDER
     # replicate 19 (BORDER # replicate 19 NOSTONE @ [BORDER])
     @ [replicate 21 BORDER]"

subsection \<open>tools.py: make\_move and unmake\_move\<close>

definition make_move :: "board \<Rightarrow> stone_move \<Rightarrow> cell \<Rightarrow> board option" where
  "make_move board move color =
     do {
       b1 \<leftarrow> (if in_play (fst (first_pos move)) (snd (first_pos move))
              then set_cell board (fst (first_pos move)) (snd (first_pos move)) color
              else Some board);
       (if in_play (fst (second_pos move)) (snd (second_pos move))
        then set_cell b1 (fst (second_pos move)) (snd (second_pos move)) color
        else Some b1)
     }"

definition unmake_move :: "board \<Rightarrow> stone_move \<Rightarrow> board option" where
  "unmake_move board move =
     do {
       b1 \<leftarrow> (if in_play (fst (first_pos move)) (snd (first_pos move))
              then set_cell board (fst (first_pos move)) (snd (first_pos move)) NOSTONE
              else Some board);
       (if in_play (fst (second_pos move)) (snd (second_pos move))
        then set_cell b1 (fst (second_pos move)) (snd (second_pos move)) NOSTONE
        else Some b1)
     }"

subsection \<open>pattern\_recognition.py: the threat classifier\<close>

datatype pattern_type =
    SIX_IN_ROW | FIVE_IN_ROW | OPEN_FOUR | DOUBLE_FOUR | STRAIGHT_FOUR | FOUR_THREE
  | OPEN_THREE | DOUBLE_THREE | STRAIGHT_THREE | OPEN_TWO | SPLIT_THREE | LOOSE_TWO
  | DIAMOND | SQUARE | BRIDGE

text \<open>\<^verbatim>\<open>PatternRecognizer._classify_threat\<close>; \<open>None\<close> is Python's \<^verbatim>\<open>None\<close> pattern type.\<close>

definition classify_threat :: "int \<Rightarrow> bool \<Rightarrow> bool \<Rightarrow> pattern_type option \<times> int" where
  "classify_threat len before_open after_open =
     (let both_open = before_open \<and> after_open;
          one_open = before_open \<or> after_open
      in if len \<ge> 6 then (Some SIX_IN_ROW, 5)
         else if len = 5 then (Some FIVE_IN_ROW, 5)
         else if len = 4 then
           (if both_open then (Some OPEN_FOUR, 5)
            else if one_open then (Some STRAIGHT_FOUR, 4)
            else (None, 0))
         else if len = 3 then
           (if both_open then (Some OPEN_THREE, 3)
            else if one_open then (Some STRAIGHT_THREE, 2)
            else (None, 0))
         else if len = 2 then
           (if both_open then (Some OPEN_TWO, 2)
            else if one_open then (Some LOOSE_TWO, 1)
            else (None, 0))
         else (None, 0))"

text \<open>
  The table of the specification, written from its words: the result is looked up by the
  run length and the number of open ends (0, 1 or 2).
\<close>

definition open_ends :: "bool \<Rightarrow> bool \<Rightarrow> nat" where
  "open_ends before_open after_open = (if before_open then 1 else 0) + (if after_open then 1 else 0)"

fun spec_threat_table :: "int \<Rightarrow> nat \<Rightarrow> pattern_type option \<times> int" where
  "spec_threat_table len k =
     (if len \<ge> 6 then (Some SIX_IN_ROW, 5)
      else if len = 5 then (Some FIVE_IN_ROW, 5)
      else if len = 4 \<and> k = 2 then (Some OPEN_FOUR, 5)
      else if len = 4 \<and> k = 1 then (Some STRAIGHT_FOUR, 4)
      else if len = 3 \<and> k = 2 then (Some OPEN_THREE, 3)
      else if len = 3 \<and> k = 1 then (Some STRAIGHT_THREE, 2)
      else if len = 2 \<and> k = 2 then (Some OPEN_TWO, 2)
      else if len = 2 \<and> k = 1 then (Some LOOSE_TWO, 1)
      else (None, 0))"

text \<open>The order in which the specification lists the eight line patterns, strongest first.\<close>

fun spec_strength_rank :: "pattern_type \<Rightarrow> nat option" where
  "spec_strength_rank SIX_IN_ROW = Some 0"
| "spec_strength_rank FIVE_IN_ROW = Some 1"
| "spec_strength_rank OPEN_FOUR = Some 2"
| "spec_strength_rank STRAIGHT_FOUR = Some 3"
| "spec_strength_rank OPEN_THREE = Some 4"
| "spec_strength_rank STRAIGHT_THREE = Some 5"
| "spec_strength_rank OPEN_TWO = Some 6"
| "spec_strength_rank LOOSE_TWO = Some 7"
| "spec_strength_rank _ = None"

subsection \<open>search\_engine.py: the game-end return of the recursive search\<close>

text \<open>
  The branch of \<^verbatim>\<open>SearchEngine._alpha_beta\<close> taken when \<^verbatim>\<open>is_win_by_premove\<close> holds for
  the move that led to the node. \<^verbatim>\<open>Defines.MAXINT\<close> and \<^verbatim>\<open>Defines.MININT\<close> are constants
  of the missing defines.py and are parameters here. \<open>depth\<close> is the remaining depth
  the node was called with.
\<close>

definition game_end_score :: "int \<Rightarrow> int \<Rightarrow> cell \<Rightarrow> cell \<Rightarrow> int \<Rightarrow> int" where
  "game_end_score maxint minint color m_chess_type depth =
     (if color = m_chess_type then minint + depth else maxint - depth)"

text \<open>
  The remaining depth of a child node on a line searched without reductions:
  \<^verbatim>\<open>_alpha_beta_root\<close> and \<^verbatim>\<open>_alpha_beta\<close> both recurse with \<^verbatim>\<open>depth - 1\<close>. A node
  \<open>ply\<close> plies below a root searched to \<open>root_depth\<close> is therefore called with
  \<open>depth_at_ply root_depth ply\<close>.
\<close>

definition child_depth :: "int \<Rightarrow> int" where
  "child_depth depth = depth - 1"

definition depth_at_ply :: "int \<Rightarrow> nat \<Rightarrow> int" where
  "depth_at_ply root_depth ply = (child_depth ^^ ply) root_depth"

subsection \<open>zobrist\_hash.py: the Zobrist hasher\<close>

text \<open>
  \<^verbatim>\<open>ZobristHash.__init__\<close> seeds Python's generator and draws one 64-bit value per
  (coordinate, colour) key, black before white, rows outermost, and a last one for the
  side to move. The generator is not part of the sources: \<open>rnd n\<close> stands for the
  \<open>n\<close>-th value \<^verbatim>\<open>random.getrandbits(64)\<close> returns after \<^verbatim>\<open>random.seed(seed)\<close>.
  Python's integers are unbounded, so hashes are \<open>int\<close> and \<^verbatim>\<open>^\<close> is \<open>XOR\<close> on \<open>int\<close>.
  A table lookup with a missing key raises KeyError, a board read out of range raises
  IndexError: both are \<open>None\<close>.
\<close>

record zobrist_hash =
  hash_table :: "int \<times> int \<times> cell \<rightharpoonup> int"
  side_to_move_hash :: int

text \<open>The pairs the loops \<^verbatim>\<open>for x in range(1, 20): for y in range(1, 20)\<close> visit, in order.\<close>

definition play_coords :: "(int \<times> int) list" where
  "play_coords = concat (map (\<lambda>x. map (\<lambda>y. (x, y)) [1..19]) [1..19])"

fun init_step :: "(nat \<Rightarrow> int) \<Rightarrow> (int \<times> int \<times> cell \<rightharpoonup> int) \<times> nat \<Rightarrow> int \<times> int
    \<Rightarrow> (int \<times> int \<times> cell \<rightharpoonup> int) \<times> nat" where
  "init_step rnd (tbl, n) (x, y) =
     (tbl((x, y, BLACK) \<mapsto> rnd n, (x, y, WHITE) \<mapsto> rnd (Suc n)), Suc (Suc n))"

definition zobrist_init :: "(nat \<Rightarrow> int) \<Rightarrow> zobrist_hash" where
  "zobrist_init rnd =
     (let (tbl, n) = foldl (init_step rnd) (Map.empty, 0) play_coords
      in \<lparr>hash_table = tbl, side_to_move_hash = rnd n\<rparr>)"

text \<open>One iteration of the body of \<^verbatim>\<open>compute_hash\<close>'s double loop.\<close>

fun hash_cell :: "zobrist_hash \<Rightarrow> board \<Rightarrow> int option \<Rightarrow> int \<times> int \<Rightarrow> int option" where
  "hash_cell z board acc (x, y) =
     do {
       hash_value \<leftarrow> acc;
       stone \<leftarrow> cell_at board x y;
       if stone = BLACK then map_option (\<lambda>v. hash_value XOR v) (hash_table z (x, y, BLACK))
       else if stone = WHITE then map_option (\<lambda>v. hash_value XOR v) (hash_table z (x, y, WHITE))
       else Some hash_value
     }"

definition compute_hash :: "zobrist_hash \<Rightarrow> board \<Rightarrow> cell \<Rightarrow> int option" where
  "compute_hash z board color =
     do {
       hash_value \<leftarrow> foldl (hash_cell z board) (Some 0) play_coords;
       Some (if color = WHITE then hash_value XOR side_to_move_hash z else hash_value)
     }"

definition update_hash :: "zobrist_hash \<Rightarrow> int \<Rightarrow> int \<Rightarrow> int \<Rightarrow> cell \<Rightarrow> int option" where
  "update_hash z current_hash x y color =
     map_option (\<lambda>v. current_hash XOR v) (hash_table z (x, y, color))"

definition toggle_side :: "zobrist_hash \<Rightarrow> int \<Rightarrow> int" where
  "toggle_side z current_hash = current_hash XOR side_to_move_hash z"

text \<open>
  The hash built incrementally: \<^verbatim>\<open>update_hash\<close> applied once per placed stone, in the
  order of the list. \<open>stones_of\<close> is the set of stones standing on the playable cells.
\<close>

fun place_all :: "zobrist_hash \<Rightarrow> int \<Rightarrow> (int \<times> int \<times> cell) list \<Rightarrow> int option" where
  "place_all z h [] = Some h"
| "place_all z h ((x, y, c) # rest) = update_hash z h x y c \<bind> (\<lambda>h'. place_all z h' rest)"

definition stones_of :: "board \<Rightarrow> (int \<times> int \<times> cell) set" where
  "stones_of b = {(x, y, c). in_play x y \<and> (c = BLACK \<or> c = WHITE) \<and> cell_at b x y = Some c}"

text \<open>Auxiliary notions for the proofs: the value of a key, and the stones in scan order.\<close>

definition key_val :: "zobrist_hash \<Rightarrow> int \<times> int \<times> cell \<Rightarrow> int" where
  "key_val z k = the (hash_table z k)"

definition occupied :: "board \<Rightarrow> int \<times> int \<Rightarrow> bool" where
  "occupied b p \<longleftrightarrow>
     cell_at b (fst p) (snd p) = Some BLACK \<or> cell_at b (fst p) (snd p) = Some WHITE"

definition stone_at :: "board \<Rightarrow> int \<times> int \<Rightarrow> int \<times> int \<times> cell" where
  "stone_at b p = (fst p, snd p, the (cell_at b (fst p) (snd p)))"

definition xor_fold :: "int list \<Rightarrow> int \<Rightarrow> int" where
  "xor_fold vs h = fold (\<lambda>v h. h XOR v) vs h"

text \<open>A position for the examples: black on (10,10), white on (10,11).\<close>

definition two_stone_board :: board where
  "two_stone_board = empty_board[10 := (empty_board ! 10)[10 := BLACK, 11 := WHITE]]"

subsection \<open>zobrist\_hash.py: the transposition table\<close>

text \<open>
  The three entry types \<^verbatim>\<open>EXACT\<close>, \<^verbatim>\<open>LOWER_BOUND\<close>, \<^verbatim>\<open>UPPER_BOUND\<close>, the entry
  dictionary, and the table object. \<^verbatim>\<open>self.table\<close> is a Python dict: it is kept as an
  association list in insertion order, because \<^verbatim>\<open>_cleanup\<close> sorts the items with a
  stable sort, so entries with equal sort keys leave in insertion order. The unused
  \<^verbatim>\<open>self.zobrist\<close> member is left out.
\<close>

datatype bound = EXACT | LOWER_BOUND | UPPER_BOUND

record tt_entry =
  entry_depth :: int
  entry_score :: int
  entry_flag :: bound
  entry_best_move :: "stone_move option"
  entry_age :: int
  entry_threat_level :: int

record transposition_table =
  table :: "(int \<times> tt_entry) list"
  max_size :: int
  current_age :: int
  hits :: int
  misses :: int
  collisions :: int

text \<open>
  \<^verbatim>\<open>d[k] = v\<close> keeps the position of a key already present and appends a new one;
  \<^verbatim>\<open>del d[k]\<close> removes the key.
\<close>

fun dict_set :: "('k \<times> 'v) list \<Rightarrow> 'k \<Rightarrow> 'v \<Rightarrow> ('k \<times> 'v) list" where
  "dict_set [] k v = [(k, v)]"
| "dict_set ((k', v') # rest) k v = (if k' = k then (k, v) # rest else (k', v') # dict_set rest k v)"

definition dict_del :: "'k \<Rightarrow> ('k \<times> 'v) list \<Rightarrow> ('k \<times> 'v) list" where
  "dict_del k d = filter (\<lambda>kv. fst kv \<noteq> k) d"

text \<open>
  \<^verbatim>\<open>_cleanup\<close>: the items are sorted by the key \<^verbatim>\<open>(age, -depth)\<close>, compared as Python
  compares tuples (lexicographically), by a stable sort; the first fifth is deleted.
\<close>

definition cleanup :: "transposition_table \<Rightarrow> transposition_table" where
  "cleanup tt =
     (let entries_by_age = map (\<lambda>(key, entry). (key, entry_age entry, entry_depth entry)) (table tt);
          sorted_entries = sort_key (\<lambda>(key, a, d). (a, - d)) entries_by_age;
          remove_count = length entries_by_age div 5
      in tt\<lparr>table := fold (\<lambda>(key, a, d). dict_del key) (take remove_count sorted_entries) (table tt)\<rparr>)"

text \<open>
  \<^verbatim>\<open>store\<close>: \<open>new_entry\<close> is the dictionary it builds, \<open>write_entry\<close> the assignment
  \<^verbatim>\<open>self.table[hash_key] = ...\<close>, \<open>keep_old\<close> the early return that keeps the old entry.
\<close>

definition write_entry :: "transposition_table \<Rightarrow> int \<Rightarrow> tt_entry \<Rightarrow> transposition_table" where
  "write_entry tt hash_key entry = tt\<lparr>table := dict_set (table tt) hash_key entry\<rparr>"

definition new_entry :: "transposition_table \<Rightarrow> int \<Rightarrow> int \<Rightarrow> bound \<Rightarrow> stone_move option \<Rightarrow> int
    \<Rightarrow> tt_entry" where
  "new_entry tt depth score' flag best_move threat_level =
     \<lparr>entry_depth = depth, entry_score = score', entry_flag = flag,
      entry_best_move = best_move, entry_age = current_age tt,
      entry_threat_level = threat_level\<rparr>"

definition store :: "transposition_table \<Rightarrow> int \<Rightarrow> int \<Rightarrow> int \<Rightarrow> bound \<Rightarrow> stone_move option \<Rightarrow> int
    \<Rightarrow> transposition_table" where
  "store tt hash_key depth score' flag best_move threat_level =
     (let keep_old =
            (case map_of (table tt) hash_key of
               None \<Rightarrow> False
             | Some old_entry \<Rightarrow>
                 \<not> (depth > entry_depth old_entry \<or>
                    (depth = entry_depth old_entry \<and> current_age tt > entry_age old_entry) \<or>
                    (flag = EXACT \<and> entry_flag old_entry \<noteq> EXACT)))
      in if keep_old then tt
         else
           (let tt1 = write_entry tt hash_key
                        (new_entry tt depth score' flag best_move threat_level)
            in if int (length (table tt1)) > max_size tt1 then cleanup tt1 else tt1))"

text \<open>
  \<^verbatim>\<open>probe\<close> returns the triple (found, score, best move) and counts the hit or miss.
\<close>

definition probe :: "transposition_table \<Rightarrow> int \<Rightarrow> int \<Rightarrow> int \<Rightarrow> int
    \<Rightarrow> (bool \<times> int option \<times> stone_move option) \<times> transposition_table" where
  "probe tt hash_key depth alpha beta =
     (case map_of (table tt) hash_key of
        None \<Rightarrow> ((False, None, None), tt\<lparr>misses := misses tt + 1\<rparr>)
      | Some entry \<Rightarrow>
          if entry_depth entry < depth
          then ((False, None, entry_best_move entry), tt\<lparr>misses := misses tt + 1\<rparr>)
          else
            (let tt1 = tt\<lparr>hits := hits tt + 1\<rparr>;
                 score' = entry_score entry;
                 flag = entry_flag entry
             in if flag = EXACT then ((True, Some score', entry_best_move entry), tt1)
                else if flag = LOWER_BOUND \<and> score' \<ge> beta
                  then ((True, Some score', entry_best_move entry), tt1)
                else if flag = UPPER_BOUND \<and> score' \<le> alpha
                  then ((True, Some score', entry_best_move entry), tt1)
                else ((False, None, entry_best_move entry), tt1)))"



text \<open>
  A table for the examples: four exact entries of generation 0, with depths 3, 1, 7, 2
  under the keys 1, 2, 3, 4, in a table of generation 1 and the default capacity.
\<close>

definition mk_entry :: "int \<Rightarrow> int \<Rightarrow> tt_entry" where
  "mk_entry d a = \<lparr>entry_depth = d, entry_score = 0, entry_flag = EXACT, entry_best_move = None,
      entry_age = a, entry_threat_level = 0\<rparr>"

definition sample_table :: transposition_table where
  "sample_table =
     \<lparr>table = [(1, mk_entry 3 0), (2, mk_entry 1 0), (3, mk_entry 7 0), (4, mk_entry 2 0)],
      max_size = 500000, current_age = 1, hits = 0, misses = 0, collisions = 0\<rparr>"


subsection \<open>tools.py: is\_win\_by\_premove\<close>

text \<open>
  The two \<^verbatim>\<open>while board[temp_x][temp_y] == movStone\<close> loops: \<open>run_length\<close> counts the
  cells equal to \<open>stone\<close> from (x, y) on, stepping by (dx, dy). The reads are not guarded:
  the walk ends at the first different cell, and a read out of range is \<open>None\<close>, the
  IndexError. The source only steps by its four directions and their opposites; a step
  of (0, 0), with which the loop would not end, is \<open>None\<close> as well.
\<close>

function run_length :: "board \<Rightarrow> cell \<Rightarrow> int \<Rightarrow> int \<Rightarrow> int \<Rightarrow> int \<Rightarrow> nat option" where
  "run_length board stone x y dx dy =
     (if dx = 0 \<and> dy = 0 then None
      else
        (case cell_at board x y of
           None \<Rightarrow> None
         | Some c \<Rightarrow>
             if c = stone then map_option Suc (run_length board stone (x + dx) (y + dy) dx dy)
             else Some 0))"
  by pat_completeness auto

text \<open>The walk leaves the index range of the list after finitely many steps.\<close>

definition walk_measure :: "board \<times> cell \<times> int \<times> int \<times> int \<times> int \<Rightarrow> nat" where
  "walk_measure = (\<lambda>(board, stone, x, y, dx, dy).
     if dx > 0 then nat (int (length board) - x)
     else if dx < 0 then nat (x + int (length board) + 1)
     else (case py_get board x of
             None \<Rightarrow> 0
           | Some row \<Rightarrow> if dy > 0 then nat (int (length row) - y)
                         else nat (y + int (length row) + 1)))"

termination run_length
proof (relation "measure walk_measure")
  show "wf (measure walk_measure)" by simp
next
  fix board :: board and stone c :: cell and x y dx dy :: int
  assume nz: "\<not> (dx = 0 \<and> dy = 0)" and c: "cell_at board x y = Some c"
  have range: "- int (length xs) \<le> i \<and> i < int (length xs)" if "py_get xs i = Some v"
    for xs :: "'a list" and i v
    using that by (auto simp: py_get_def py_index_def split: if_splits)
  from c obtain row where row: "py_get board x = Some row" and cy: "py_get row y = Some c"
    by (auto simp: cell_at_def split: option.splits)
  from range[OF row] range[OF cy] nz
  show "((board, stone, x + dx, y + dy, dx, dy), (board, stone, x, y, dx, dy)) \<in> measure walk_measure"
    by (auto simp: walk_measure_def row)
qed

declare run_length.simps [simp del]

definition directions :: "(int \<times> int) list" where
  "directions = [(1, 0), (0, 1), (1, 1), (1, - 1)]"

text \<open>
  The body of the inner loop for one direction and one position of the move:
  \<open>Some True\<close> where the source returns True, \<open>Some False\<close> where it goes on to the next
  iteration (\<^verbatim>\<open>continue\<close>, or a count below 6).
\<close>

definition check_line :: "board \<Rightarrow> int \<times> int \<Rightarrow> int \<times> int \<Rightarrow> bool option" where
  "check_line board direction position =
     (let x = fst position; y = snd position; dx = fst direction; dy = snd direction
      in if \<not> in_play x y then Some False
         else
           do {
             movStone \<leftarrow> cell_at board x y;
             if movStone = BORDER \<or> movStone = NOSTONE then Some False
             else
               do {
                 forward \<leftarrow> run_length board movStone (x + dx) (y + dy) dx dy;
                 backward \<leftarrow> run_length board movStone (x - dx) (y - dy) (- dx) (- dy);
                 Some (1 + forward + backward \<ge> 6)
               }
           })"

text \<open>A loop that returns True at the first iteration that says so, and False at its end.\<close>

fun first_true :: "('a \<Rightarrow> bool option) \<Rightarrow> 'a list \<Rightarrow> bool option" where
  "first_true f [] = Some False"
| "first_true f (a # as) =
     (case f a of None \<Rightarrow> None | Some r \<Rightarrow> if r then Some True else first_true f as)"

definition is_win_by_premove :: "board \<Rightarrow> stone_move \<Rightarrow> bool option" where
  "is_win_by_premove board preMove =
     first_true (\<lambda>(direction, position). check_line board direction position)
       (List.product directions (positions preMove))"

text \<open>
  The words of the specification. A well-formed board has 21 by 21 cells with the border
  value on rows and columns 0 and 20. A run through a point in a direction is a stretch of
  at least 6 consecutive cells of the line, containing the point, that all hold the colour.
\<close>

definition well_formed :: "board \<Rightarrow> bool" where
  "well_formed b \<longleftrightarrow>
     board_dims b \<and>
     (\<forall>i \<in> {0..20}. cell_at b i 0 = Some BORDER \<and> cell_at b 0 i = Some BORDER \<and>
                     cell_at b i 20 = Some BORDER \<and> cell_at b 20 i = Some BORDER)"

definition run_through :: "board \<Rightarrow> cell \<Rightarrow> int \<times> int \<Rightarrow> int \<times> int \<Rightarrow> bool" where
  "run_through b c p d \<longleftrightarrow>
     (\<exists>lo hi. lo \<le> 0 \<and> 0 \<le> hi \<and> hi - lo + 1 \<ge> 6 \<and>
        (\<forall>i. lo \<le> i \<and> i \<le> hi \<longrightarrow>
           cell_at b (fst p + i * fst d) (snd p + i * snd d) = Some c))"

text \<open>
  The four axes the specification names, written out as steps on the grid: along the
  first coordinate, along the second coordinate, and along the two diagonals.
\<close>

definition spec_axes :: "(int \<times> int) set" where
  "spec_axes = {(1, 0), (0, 1), (1, 1), (1, - 1)}"

definition spec_win :: "board \<Rightarrow> stone_move \<Rightarrow> bool" where
  "spec_win b m \<longleftrightarrow>
     (\<exists>p \<in> set (positions m). in_play (fst p) (snd p) \<and>
        (\<exists>c. (c = BLACK \<or> c = WHITE) \<and> cell_at b (fst p) (snd p) = Some c \<and>
           (\<exists>d \<in> spec_axes. run_through b c p d)))"

text \<open>
  Positions for the examples, one per axis: six black stones on (10,10) .. (10,15), on
  (5,10) .. (10,10), on (5,5) .. (10,10) and on (5,15) .. (10,10).
\<close>

definition six_board :: board where
  "six_board =
     empty_board[10 := (empty_board ! 10)
       [10 := BLACK, 11 := BLACK, 12 := BLACK, 13 := BLACK, 14 := BLACK, 15 := BLACK]]"

definition column_six_board :: board where
  "column_six_board =
     empty_board
       [5 := (empty_board ! 5)[10 := BLACK], 6 := (empty_board ! 6)[10 := BLACK],
        7 := (empty_board ! 7)[10 := BLACK], 8 := (empty_board ! 8)[10 := BLACK],
        9 := (empty_board ! 9)[10 := BLACK], 10 := (empty_board ! 10)[10 := BLACK]]"

definition diagonal_six_board :: board where
  "diagonal_six_board =
     empty_board
       [5 := (empty_board ! 5)[5 := WHITE], 6 := (empty_board ! 6)[6 := WHITE],
        7 := (empty_board ! 7)[7 := WHITE], 8 := (empty_board ! 8)[8 := WHITE],
        9 := (empty_board ! 9)[9 := WHITE], 10 := (empty_board ! 10)[10 := WHITE]]"

definition antidiagonal_six_board :: board where
  "antidiagonal_six_board =
     empty_board
       [5 := (empty_board ! 5)[15 := WHITE], 6 := (empty_board ! 6)[14 := WHITE],
        7 := (empty_board ! 7)[13 := WHITE], 8 := (empty_board ! 8)[12 := WHITE],
        9 := (empty_board ! 9)[11 := WHITE], 10 := (empty_board ! 10)[10 := WHITE]]"

subsection \<open>pattern\_recognition.py: line analysis and position analysis\<close>

text \<open>
  A \<^verbatim>\<open>ThreatPattern\<close> object and the weights \<^verbatim>\<open>self.pattern_scores\<close>.
\<close>

record threat_pattern =
  threat_type :: pattern_type
  threat_positions :: "(int \<times> int) list"
  threat_level :: int
  win_positions :: "(int \<times> int) list"

fun pattern_scores :: "pattern_type \<Rightarrow> int" where
  "pattern_scores SIX_IN_ROW = 10000000"
| "pattern_scores FIVE_IN_ROW = 5000000"
| "pattern_scores OPEN_FOUR = 5000000"
| "pattern_scores DOUBLE_FOUR = 800000"
| "pattern_scores STRAIGHT_FOUR = 2000000"
| "pattern_scores FOUR_THREE = 400000"
| "pattern_scores OPEN_THREE = 200000"
| "pattern_scores DOUBLE_THREE = 80000"
| "pattern_scores STRAIGHT_THREE = 5000"
| "pattern_scores OPEN_TWO = 1000"
| "pattern_scores SPLIT_THREE = 500"
| "pattern_scores LOOSE_TWO = 100"
| "pattern_scores DIAMOND = 2000"
| "pattern_scores SQUARE = 1500"
| "pattern_scores BRIDGE = 800"

text \<open>
  The guarded comparison \<^verbatim>\<open>1 <= x <= 19 and 1 <= y <= 19 and board[x][y] == v\<close>: the
  board is read only when the coordinate is playable, and the read is \<open>None\<close> if the
  list is too short (IndexError). \<open>guarded_run\<close> is the \<^verbatim>\<open>while\<close> loop over this
  test, counting the cells it passes.
\<close>

definition guarded_eq :: "board \<Rightarrow> int \<Rightarrow> int \<Rightarrow> cell \<Rightarrow> bool option" where
  "guarded_eq board x y v =
     (if in_play x y then map_option (\<lambda>c. c = v) (cell_at board x y) else Some False)"

function guarded_run :: "board \<Rightarrow> cell \<Rightarrow> int \<Rightarrow> int \<Rightarrow> int \<Rightarrow> int \<Rightarrow> nat option" where
  "guarded_run board color x y dx dy =
     (if dx = 0 \<and> dy = 0 then None
      else
        (case guarded_eq board x y color of
           None \<Rightarrow> None
         | Some same \<Rightarrow>
             if same then map_option Suc (guarded_run board color (x + dx) (y + dy) dx dy)
             else Some 0))"
  by pat_completeness auto

definition guarded_measure :: "board \<times> cell \<times> int \<times> int \<times> int \<times> int \<Rightarrow> nat" where
  "guarded_measure = (\<lambda>(board, color, x, y, dx, dy).
     if dx > 0 then nat (20 - x) else if dx < 0 then nat x
     else if dy > 0 then nat (20 - y) else nat y)"

termination guarded_run
proof (relation "measure guarded_measure")
  show "wf (measure guarded_measure)" by simp
next
  fix board :: board and color :: cell and x y dx dy :: int and same :: bool
  assume "\<not> (dx = 0 \<and> dy = 0)" "guarded_eq board x y color = Some same" "same"
  then show "((board, color, x + dx, y + dy, dx, dy), (board, color, x, y, dx, dy))
      \<in> measure guarded_measure"
    by (auto simp: guarded_measure_def guarded_eq_def in_play_def split: if_splits)
qed

declare guarded_run.simps [simp del]

text \<open>
  \<^verbatim>\<open>PatternRecognizer._analyze_line\<close>. The outer \<open>option\<close> is the exception, the inner
  one Python's \<^verbatim>\<open>None\<close> result. \<open>consecutive\<close> counts from (x, y) forward only, while
  the positions and both ends are taken from the start of the whole run, as in the source.
\<close>

definition analyze_line :: "board \<Rightarrow> int \<Rightarrow> int \<Rightarrow> int \<times> int \<Rightarrow> cell \<Rightarrow> threat_pattern option option" where
  "analyze_line board x y direction color =
     (let dx = fst direction; dy = snd direction
      in do {
        forward \<leftarrow> guarded_run board color (x + dx) (y + dy) dx dy;
        let consecutive = 1 + int forward;
        if consecutive < 2 then Some None
        else do {
          backward \<leftarrow> guarded_run board color (x - dx) (y - dy) (- dx) (- dy);
          let start_x = x - int backward * dx;
          let start_y = y - int backward * dy;
          let positions = map (\<lambda>i. (start_x + i * dx, start_y + i * dy)) [0..consecutive - 1];
          let before_x = start_x - dx;
          let before_y = start_y - dy;
          let after_x = start_x + consecutive * dx;
          let after_y = start_y + consecutive * dy;
          before_open \<leftarrow> guarded_eq board before_x before_y NOSTONE;
          after_open \<leftarrow> guarded_eq board after_x after_y NOSTONE;
          let (pattern, level) = classify_threat consecutive before_open after_open;
          let win1 = (if before_open then [(before_x, before_y)] else []);
          let win2 = win1 @ (if after_open then [(after_x, after_y)] else []);
          win3 \<leftarrow> (if after_open \<and> consecutive \<ge> 3
                   then do {
                     gap \<leftarrow> guarded_eq board (after_x + dx) (after_y + dy) color;
                     Some (if gap then win2 @ [(after_x, after_y)] else win2)
                   }
                   else Some win2);
          Some (case pattern of
                  None \<Rightarrow> None
                | Some pt \<Rightarrow> Some \<lparr>threat_type = pt, threat_positions = positions,
                                  threat_level = level, win_positions = win3\<rparr>)
        }
      })"

text \<open>
  \<^verbatim>\<open>PatternRecognizer.analyze_position\<close> and the dictionary it returns. The two move lists
  are \<^verbatim>\<open>list(set(...))\<close> in the source: duplicates are removed, and the order of the
  result is the iteration order of a Python set, which the model does not follow
  (\<open>remdups\<close> keeps the order of the last occurrences); only the elements are specified.
\<close>

record analysis =
  threats :: "threat_pattern list"
  analysis_score :: int
  critical_level :: int
  winning_moves :: "(int \<times> int) list"
  defensive_moves :: "(int \<times> int) list"

definition add_threat :: "analysis \<Rightarrow> threat_pattern \<Rightarrow> analysis" where
  "add_threat a threat =
     a\<lparr>threats := threats a @ [threat],
       analysis_score := analysis_score a + pattern_scores (threat_type threat),
       critical_level := max (critical_level a) (threat_level threat),
       winning_moves :=
         (if threat_level threat \<ge> 5 then winning_moves a @ win_positions threat
          else winning_moves a),
       defensive_moves :=
         (if threat_level threat \<ge> 5 then defensive_moves a
          else if threat_level threat \<ge> 4 then defensive_moves a @ win_positions threat
          else defensive_moves a)\<rparr>"

definition analyze_direction :: "board \<Rightarrow> cell \<Rightarrow> int \<Rightarrow> int \<Rightarrow> analysis option \<Rightarrow> int \<times> int
    \<Rightarrow> analysis option" where
  "analyze_direction board color x y acc direction =
     do {
       a \<leftarrow> acc;
       threat \<leftarrow> analyze_line board x y direction color;
       Some (case threat of None \<Rightarrow> a | Some t \<Rightarrow> add_threat a t)
     }"

definition analyze_cell :: "board \<Rightarrow> cell \<Rightarrow> analysis option \<Rightarrow> int \<times> int \<Rightarrow> analysis option" where
  "analyze_cell board color acc position =
     do {
       a \<leftarrow> acc;
       c \<leftarrow> cell_at board (fst position) (snd position);
       if c = color
       then foldl (analyze_direction board color (fst position) (snd position)) (Some a) directions
       else Some a
     }"

definition analyze_position :: "board \<Rightarrow> cell \<Rightarrow> analysis option" where
  "analyze_position board color =
     do {
       a \<leftarrow> foldl (analyze_cell board color)
              (Some \<lparr>threats = [], analysis_score = 0, critical_level = 0,
                     winning_moves = [], defensive_moves = []\<rparr>)
              play_coords;
       Some (a\<lparr>winning_moves := remdups (winning_moves a),
               defensive_moves := remdups (defensive_moves a)\<rparr>)
     }"

text \<open>A position for the examples: five black stones on (10,10) .. (10,14), both ends open.\<close>

definition five_board :: board where
  "five_board =
     empty_board[10 := (empty_board ! 10)
       [10 := BLACK, 11 := BLACK, 12 := BLACK, 13 := BLACK, 14 := BLACK]]"

subsection \<open>search\_engine.py: the tactical shortcut of iterative\_deepening\_search\<close>



definition detect_immediate_win :: "board \<Rightarrow> cell \<Rightarrow> (int \<times> int) list option" where
  "detect_immediate_win board color = map_option winning_moves (analyze_position board color)"


text \<open>An empty playable cell of a board.\<close>

definition empty_playable :: "board \<Rightarrow> int \<times> int \<Rightarrow> bool" where
  "empty_playable b p \<longleftrightarrow> in_play (fst p) (snd p) \<and> cell_at b (fst p) (snd p) = Some NOSTONE"

definition moves_empty :: "board \<Rightarrow> analysis \<Rightarrow> bool" where
  "moves_empty b a \<longleftrightarrow>
     (\<forall>p \<in> set (winning_moves a) \<union> set (defensive_moves a). empty_playable b p)"



subsection \<open>move\_generator.py: the priority cascade\<close>

text \<open>
  The exceptions that can leave \<^verbatim>\<open>generate_moves\<close>. The board functions above return
  \<open>None\<close> for an IndexError; \<open>raising\<close> turns that into the error value.
\<close>

datatype py_error = IndexError | AttributeError

definition raising :: "'a option \<Rightarrow> py_error + 'a" where
  "raising r = (case r of None \<Rightarrow> Inl IndexError | Some v \<Rightarrow> Inr v)"

text \<open>
  \<^verbatim>\<open>Evaluator.detect_critical_moves\<close>: every empty cell is tried in turn: the stone is
  placed, the position analysed, the stone removed. The board is threaded through, as
  the source mutates it in place. The result is sorted by (threat level, score) with
  \<^verbatim>\<open>reverse=True\<close>, which keeps equal elements in their original order.
\<close>

record critical_move =
  cm_position :: "int \<times> int"
  cm_threat_level :: int
  cm_score :: int

definition try_cell :: "cell \<Rightarrow> (board \<times> critical_move list) option \<Rightarrow> int \<times> int
    \<Rightarrow> (board \<times> critical_move list) option" where
  "try_cell color acc p =
     do {
       (board, critical_moves) \<leftarrow> acc;
       c \<leftarrow> cell_at board (fst p) (snd p);
       if c = NOSTONE
       then do {
         b1 \<leftarrow> set_cell board (fst p) (snd p) color;
         a \<leftarrow> analyze_position b1 color;
         b2 \<leftarrow> set_cell b1 (fst p) (snd p) NOSTONE;
         Some (b2,
               if critical_level a \<ge> 3
               then critical_moves @ [\<lparr>cm_position = p, cm_threat_level = critical_level a,
                                        cm_score = analysis_score a\<rparr>]
               else critical_moves)
       }
       else Some (board, critical_moves)
     }"

definition sort_reverse :: "('a \<Rightarrow> 'k::linorder) \<Rightarrow> 'a list \<Rightarrow> 'a list" where
  "sort_reverse key xs = rev (sort_key key (rev xs))"

definition detect_critical_moves :: "board \<Rightarrow> cell \<Rightarrow> (board \<times> critical_move list) option" where
  "detect_critical_moves board color =
     do {
       (b, critical_moves) \<leftarrow> foldl (try_cell color) (Some (board, [])) play_coords;
       Some (b, sort_reverse (\<lambda>m. (cm_threat_level m, cm_score m)) critical_moves)
     }"

text \<open>
  The \<^verbatim>\<open>critical_situation\<close> entry of \<^verbatim>\<open>Evaluator.get_threat_analysis\<close>, the only entry
  \<^verbatim>\<open>generate_moves\<close> reads (the threat combinations computed beside it are not used).
\<close>

definition critical_situation :: "board \<Rightarrow> cell \<Rightarrow> bool option" where
  "critical_situation board color =
     do {
       our_analysis \<leftarrow> analyze_position board color;
       let opponent = (if color = WHITE then BLACK else WHITE);
       opp_analysis \<leftarrow> analyze_position board opponent;
       Some (critical_level our_analysis \<ge> 4 \<or> critical_level opp_analysis \<ge> 4)
     }"

text \<open>
  \<^verbatim>\<open>MoveGenerator.generate_moves\<close>: the cascade that selects a tier, and the head of
  \<^verbatim>\<open>_generate_critical_moves\<close> down to the two calls of \<^verbatim>\<open>detect_critical_moves\<close>.
  The bodies that build the move lists of the tiers are parameters, collected in
  \<open>tier_bodies\<close>: the result below holds whatever they return. The line
  \<^verbatim>\<open>opponent = Defines.BLACK if color == Defines.WHITE else Defines.opponent\<close> reads an
  attribute that \<^verbatim>\<open>Defines\<close> does not have (every other line of the sources names only
  the constants in capitals), so it raises AttributeError unless the colour is white.
\<close>

record tier_bodies =
  create_winning_moves :: "(int \<times> int) list \<Rightarrow> board \<Rightarrow> cell \<Rightarrow> py_error + stone_move list"
  create_desperate_defense :: "(int \<times> int) list \<Rightarrow> board \<Rightarrow> cell \<Rightarrow> py_error + stone_move list"
  create_defensive_counterattack ::
    "int \<times> int \<Rightarrow> board \<Rightarrow> cell \<Rightarrow> int \<Rightarrow> py_error + stone_move list"
  combine_critical_moves ::
    "critical_move list \<Rightarrow> critical_move list \<Rightarrow> board \<Rightarrow> cell \<Rightarrow> int \<Rightarrow> py_error + stone_move list"
  generate_standard_moves :: "board \<Rightarrow> cell \<Rightarrow> int \<Rightarrow> int \<Rightarrow> py_error + stone_move list"

definition generate_critical_moves :: "tier_bodies \<Rightarrow> board \<Rightarrow> cell \<Rightarrow> int
    \<Rightarrow> py_error + stone_move list" where
  "generate_critical_moves tiers board color max_moves =
     (case raising (detect_critical_moves board color) of
        Inl e \<Rightarrow> Inl e
      | Inr (b1, our_critical) \<Rightarrow>
          (case (if color = WHITE then Inr BLACK else Inl AttributeError) of
             Inl e \<Rightarrow> Inl e
           | Inr opponent \<Rightarrow>
               (case raising (detect_critical_moves b1 opponent) of
                  Inl e \<Rightarrow> Inl e
                | Inr (b2, opp_critical) \<Rightarrow>
                    combine_critical_moves tiers our_critical opp_critical b2 color max_moves)))"

definition generate_moves :: "tier_bodies \<Rightarrow> board \<Rightarrow> cell \<Rightarrow> int \<Rightarrow> int \<Rightarrow> stone_move option
    \<Rightarrow> py_error + stone_move list" where
  "generate_moves tiers board color depth max_moves pv_move =
     (let opponent = (if color = WHITE then BLACK else WHITE)
      in case pv_move of
           Some m \<Rightarrow> Inr [m]
         | None \<Rightarrow>
             (case raising (detect_immediate_win board color) of
                Inl e \<Rightarrow> Inl e
              | Inr our_wins \<Rightarrow>
                  if our_wins \<noteq> [] then create_winning_moves tiers our_wins board color
                  else
                    (case raising (detect_immediate_win board opponent) of
                       Inl e \<Rightarrow> Inl e
                     | Inr opp_wins \<Rightarrow>
                         if opp_wins \<noteq> [] then
                           (if length opp_wins \<ge> 2
                            then create_desperate_defense tiers opp_wins board color
                            else create_defensive_counterattack tiers (opp_wins ! 0) board color
                                   max_moves)
                         else
                           (case raising (critical_situation board color) of
                              Inl e \<Rightarrow> Inl e
                            | Inr critical \<Rightarrow>
                                if critical
                                then generate_critical_moves tiers board color max_moves
                                else generate_standard_moves tiers board color depth max_moves))))"

text \<open>
  A position for the examples, black to move (5 black and 6 white stones): black has four
  in a row on (10,10) .. (10,13), blocked by white on (10,9) and open on (10,14).
\<close>

definition straight_four_board :: board where
  "straight_four_board =
     empty_board
       [3 := (empty_board ! 3)[3 := BLACK],
        5 := (empty_board ! 5)[5 := WHITE, 15 := WHITE],
        10 := (empty_board ! 10)[9 := WHITE, 10 := BLACK, 11 := BLACK, 12 := BLACK, 13 := BLACK],
        15 := (empty_board ! 15)[5 := WHITE, 15 := WHITE],
        17 := (empty_board ! 17)[10 := WHITE]]"

subsection \<open>search\_engine.py: the key of the transposition-table probes and stores\<close>

text \<open>
  \<^verbatim>\<open>SearchEngine._hash_board\<close> is \<^verbatim>\<open>hash(tuple(tuple(row) for row in self.m_board))\<close>.
  Python's built-in \<^verbatim>\<open>hash\<close> is not part of the sources; on a tuple of tuples of
  integers it is a function of the cells, the parameter \<open>py_hash\<close>. \<^verbatim>\<open>_alpha_beta\<close>
  computes \<^verbatim>\<open>board_hash = self._hash_board()\<close> once per node and passes it to both
  \<^verbatim>\<open>probe\<close> and \<^verbatim>\<open>store\<close>: \<open>alpha_beta_tt_key\<close> is that key at a node where \<open>color\<close>
  is to move.
\<close>

definition hash_board :: "(board \<Rightarrow> int) \<Rightarrow> board \<Rightarrow> int" where
  "hash_board py_hash m_board = py_hash m_board"

definition alpha_beta_tt_key :: "(board \<Rightarrow> int) \<Rightarrow> board \<Rightarrow> cell \<Rightarrow> int" where
  "alpha_beta_tt_key py_hash m_board color = hash_board py_hash m_board"

text \<open>
  A node of \<^verbatim>\<open>_alpha_beta\<close> is given by the board, the side to move and the remaining
  depth. The null-move call (\<^verbatim>\<open>depth - 1 - self.null_move_reduction\<close> with the reduction
  2, \<^verbatim>\<open>color ^ 3\<close>, no stone placed) enters the child node on the same board with the
  other side to move; \<^verbatim>\<open>color ^ 3\<close> exchanges the two colours. It is made at depth 3 or
  more when the position is not critical.
\<close>

fun flip_color :: "cell \<Rightarrow> cell" where
  "flip_color BLACK = WHITE"
| "flip_color WHITE = BLACK"
| "flip_color c = c"

definition null_move_child :: "board \<times> cell \<times> int \<Rightarrow> board \<times> cell \<times> int" where
  "null_move_child node =
     (case node of (m_board, color, depth) \<Rightarrow> (m_board, flip_color color, depth - 1 - 2))"

definition node_tt_key :: "(board \<Rightarrow> int) \<Rightarrow> board \<times> cell \<times> int \<Rightarrow> int" where
  "node_tt_key py_hash node =
     (case node of (m_board, color, depth) \<Rightarrow> alpha_beta_tt_key py_hash m_board color)"

text \<open>
  A node for the examples: black opened on (10,10), white answered on (9,9) and (9,10),
  black is to move. \<open>fresh_table\<close> is the table \<^verbatim>\<open>TranspositionTable(max_size=500000)\<close>
  constructs.
\<close>

definition opening_board :: board where
  "opening_board =
     empty_board[9 := (empty_board ! 9)[9 := WHITE, 10 := WHITE],
                 10 := (empty_board ! 10)[10 := BLACK]]"

definition fresh_table :: transposition_table where
  "fresh_table = \<lparr>table = [], max_size = 500000, current_age = 0, hits = 0, misses = 0,
     collisions = 0\<rparr>"

section \<open>Properties\<close>

subsection \<open>Python indexing on indices in range\<close>

lemma py_index_nonneg:
  "0 \<le> i \<Longrightarrow> py_index xs i = (if i < int (length xs) then Some (nat i) else None)"
  by (simp add: py_index_def)

lemma py_get_nonneg:
  "0 \<le> i \<Longrightarrow> py_get xs i = (if i < int (length xs) then Some (xs ! nat i) else None)"
  by (simp add: py_get_def py_index_nonneg)

lemma py_set_nonneg:
  "0 \<le> i \<Longrightarrow> py_set xs i v = (if i < int (length xs) then Some (xs[nat i := v]) else None)"
  by (simp add: py_set_def py_index_nonneg)

lemma cell_at_nonneg:
  "0 \<le> x \<Longrightarrow> 0 \<le> y \<Longrightarrow>
   cell_at b x y =
     (if x < int (length b) \<and> y < int (length (b ! nat x)) then Some (b ! nat x ! nat y) else None)"
  by (simp add: cell_at_def py_get_nonneg)

lemma set_cell_nonneg:
  "0 \<le> x \<Longrightarrow> 0 \<le> y \<Longrightarrow>
   set_cell b x y v =
     (if x < int (length b) \<and> y < int (length (b ! nat x))
      then Some (b[nat x := (b ! nat x)[nat y := v]]) else None)"
  by (simp add: set_cell_def py_get_nonneg py_set_nonneg)

lemma list_update_same: "r ! i = v \<Longrightarrow> r[i := v] = r"
  by (metis list_update_id)

subsection \<open>The threat classifier\<close>

text \<open>
  C5. For every run length of at least 2 and every openness of the two ends, the
  classifier returns the pattern and level of the specification's table, looked up by
  the number of open ends. Whenever the classifier assigns two of the eight line patterns,
  the one listed earlier in the order six-in-row, five, open-four, straight-four,
  open-three, straight-three, open-two, loose-two has a level at least as high, and an
  open-three has a strictly higher level than a straight-three.
\<close>

theorem classify_threat_table:
  "(2 \<le> L \<longrightarrow> classify_threat L bo ao = spec_threat_table L (open_ends bo ao)) \<and>
   (classify_threat L bo ao = (Some p, l) \<and> classify_threat L' bo' ao' = (Some p', l') \<and>
    spec_strength_rank p = Some r \<and> spec_strength_rank p' = Some r' \<and> r \<le> r' \<longrightarrow> l' \<le> l) \<and>
   (classify_threat L bo ao = (Some OPEN_THREE, l) \<and>
    classify_threat L' bo' ao' = (Some STRAIGHT_THREE, l') \<longrightarrow> l' < l)"
proof (intro conjI impI)
  assume "2 \<le> L"
  then show "classify_threat L bo ao = spec_threat_table L (open_ends bo ao)"
    by (simp add: classify_threat_def open_ends_def Let_def)
next
  assume "classify_threat L bo ao = (Some p, l) \<and> classify_threat L' bo' ao' = (Some p', l') \<and>
    spec_strength_rank p = Some r \<and> spec_strength_rank p' = Some r' \<and> r \<le> r'"
  then show "l' \<le> l"
    by (auto simp add: classify_threat_def Let_def split: if_splits)
next
  assume "classify_threat L bo ao = (Some OPEN_THREE, l) \<and>
    classify_threat L' bo' ao' = (Some STRAIGHT_THREE, l')"
  then show "l' < l"
    by (auto simp add: classify_threat_def Let_def split: if_splits)
qed

theorem classify_threat_table_witness:
  "(2::int) \<le> 3 \<and>
   classify_threat 3 True True = (Some OPEN_THREE, 3) \<and>
   classify_threat 3 True False = (Some STRAIGHT_THREE, 2) \<and>
   spec_strength_rank OPEN_THREE = Some 4 \<and> spec_strength_rank STRAIGHT_THREE = Some 5 \<and>
   (4::nat) \<le> 5 \<and>
   classify_threat 3 True True = spec_threat_table 3 (open_ends True True) \<and>
   (2::int) \<le> 3 \<and> (2::int) < 3"
  using classify_threat_table [of 3 True True OPEN_THREE 3 3 True False STRAIGHT_THREE 2 4 5]
  by (simp add: classify_threat_def)

subsection \<open>Placing and removing the stones of a move\<close>

lemma row_restore: "r ! i = N \<Longrightarrow> r ! j = N \<Longrightarrow> r[i := c, j := c, i := N, j := N] = r"
proof (rule nth_equalityI)
  show "length (r[i := c, j := c, i := N, j := N]) = length r" by simp
next
  fix k assume "r ! i = N" "r ! j = N" "k < length (r[i := c, j := c, i := N, j := N])"
  then show "r[i := c, j := c, i := N, j := N] ! k = r ! k"
    by (cases "k = i"; cases "k = j"; simp)
qed

lemma board_restore:
  fixes c :: "'a"
  assumes "i0 < length b" "i1 < length b" "b ! i0 ! j0 = N" "b ! i1 ! j1 = N"
  defines "b1 \<equiv> b[i0 := (b ! i0)[j0 := c]]"
  defines "b2 \<equiv> b1[i1 := (b1 ! i1)[j1 := c]]"
  defines "b3 \<equiv> b2[i0 := (b2 ! i0)[j0 := N]]"
  shows "b3[i1 := (b3 ! i1)[j1 := N]] = b"
proof (cases "i0 = i1")
  case True
  with assms(1-4) show ?thesis
    unfolding b1_def b2_def b3_def by (simp add: row_restore)
next
  case False
  show ?thesis
  proof (rule nth_equalityI)
    show "length (b3[i1 := (b3 ! i1)[j1 := N]]) = length b"
      unfolding b1_def b2_def b3_def by simp
  next
    fix k assume "k < length (b3[i1 := (b3 ! i1)[j1 := N]])"
    then have k: "k < length b" unfolding b1_def b2_def b3_def by simp
    show "b3[i1 := (b3 ! i1)[j1 := N]] ! k = b ! k"
      using False assms(1-4) k unfolding b1_def b2_def b3_def
      by (cases "k = i0"; cases "k = i1"; simp add: list_update_same)
  qed
qed

text \<open>
  C7. For every board, every colour and every move whose two coordinates lie in
  [1,19] x [1,19] and name cells that are empty when the move is applied, make\_move
  returns a board, and unmake\_move of the same move on it returns the board the pair
  started from: every cell, borders included, has its original value.
\<close>

theorem make_unmake_restores:
  assumes "in_play (fst (first_pos m)) (snd (first_pos m))"
    and "in_play (fst (second_pos m)) (snd (second_pos m))"
    and "cell_at b (fst (first_pos m)) (snd (first_pos m)) = Some NOSTONE"
    and "cell_at b (fst (second_pos m)) (snd (second_pos m)) = Some NOSTONE"
  shows "make_move b m c \<bind> (\<lambda>b'. unmake_move b' m) = Some b"
proof -
  obtain x0 y0 x1 y1 where m: "first_pos m = (x0, y0)" "second_pos m = (x1, y1)"
    by (metis surj_pair)
  from assms(1,2) m have nn: "0 \<le> x0" "0 \<le> y0" "0 \<le> x1" "0 \<le> y1"
    by (auto simp: in_play_def)
  from assms(3) m nn have r0:
    "nat x0 < length b" "nat y0 < length (b ! nat x0)" "b ! nat x0 ! nat y0 = NOSTONE"
    by (auto simp: cell_at_nonneg split: if_splits)
  from assms(4) m nn have r1:
    "nat x1 < length b" "nat y1 < length (b ! nat x1)" "b ! nat x1 ! nat y1 = NOSTONE"
    by (auto simp: cell_at_nonneg split: if_splits)
  have lens: "x0 < int (length b)" "x1 < int (length b)"
    "y0 < int (length (b ! nat x0))" "y1 < int (length (b ! nat x1))"
    using r0 r1 nn by auto
  note br = board_restore [OF r0(1) r1(1) r0(3) r1(3), of c]
  show ?thesis
    using assms(1,2) m nn r0 r1 lens br
    apply (simp add: make_move_def unmake_move_def set_cell_nonneg)
    apply (auto simp: nth_list_update)
    done
qed

theorem make_unmake_restores_witness:
  "in_play 10 10 \<and> in_play 10 11 \<and>
   cell_at empty_board 10 10 = Some NOSTONE \<and> cell_at empty_board 10 11 = Some NOSTONE \<and>
   make_move empty_board \<lparr>first_pos = (10, 10), second_pos = (10, 11), score = 0\<rparr> BLACK
     \<bind> (\<lambda>b'. unmake_move b' \<lparr>first_pos = (10, 10), second_pos = (10, 11), score = 0\<rparr>)
   = Some empty_board"
proof -
  have h1: "in_play 10 10" and h2: "in_play 10 11" by (simp_all add: in_play_def)
  have h3: "cell_at empty_board 10 10 = Some NOSTONE" by code_simp
  have h4: "cell_at empty_board 10 11 = Some NOSTONE" by code_simp
  show ?thesis
    using h1 h2 h3 h4
      make_unmake_restores [of "\<lparr>first_pos = (10, 10), second_pos = (10, 11), score = 0\<rparr>"
        empty_board BLACK]
    by simp
qed

subsection \<open>The Zobrist hasher\<close>

lemma foldl_init_dom:
  "dom (fst (foldl (init_step rnd) (tbl, n) ps)) =
     dom tbl \<union> {(x, y, c). (x, y) \<in> set ps \<and> (c = BLACK \<or> c = WHITE)}"
proof (induction ps arbitrary: tbl n)
  case Nil
  then show ?case by simp
next
  case (Cons p ps)
  obtain x y where p: "p = (x, y)" by (cases p)
  show ?case unfolding p by (simp add: Cons.IH del: fun_upd_apply) blast
qed

lemma set_play_coords: "set play_coords = {(x, y). in_play x y}"
  by (auto simp: play_coords_def in_play_def)

lemma distinct_play_coords: "distinct play_coords"
  unfolding play_coords_def
  by (rule distinct_concat) (auto simp: distinct_map inj_on_def)

lemma zobrist_init_key:
  "(x, y, c) \<in> dom (hash_table (zobrist_init rnd)) \<longleftrightarrow> in_play x y \<and> (c = BLACK \<or> c = WHITE)"
proof -
  obtain tbl n where f: "foldl (init_step rnd) (Map.empty, 0) play_coords = (tbl, n)"
    by (cases "foldl (init_step rnd) (Map.empty, 0) play_coords")
  have "dom tbl = {(x, y, c). (x, y) \<in> set play_coords \<and> (c = BLACK \<or> c = WHITE)}"
    using foldl_init_dom[of rnd Map.empty 0 play_coords] f by simp
  then show ?thesis by (simp add: zobrist_init_def f set_play_coords)
qed

lemma xor_twice: "(h XOR v) XOR v = (h::int)"
  by (simp add: xor.assoc)

lemma xor_fold_perm: "mset vs = mset ws \<Longrightarrow> xor_fold vs h = xor_fold ws h"
  unfolding xor_fold_def
  by (rule fun_cong[OF fold_multiset_equiv]) (auto simp: fun_eq_iff xor.assoc xor.left_commute xor.commute)


lemma board_dims_in_play:
  assumes "board_dims b" "in_play x y"
  shows "\<exists>c. cell_at b x y = Some c"
proof -
  from assms have x: "0 \<le> x" "nat x < length b" and y: "0 \<le> y" "y < 21"
    by (auto simp: board_dims_def in_play_def)
  then have "b ! nat x \<in> set b" by simp
  with assms(1) have "length (b ! nat x) = 21" by (simp add: board_dims_def list_all_iff)
  with x y assms show ?thesis by (auto simp: cell_at_nonneg board_dims_def)
qed

lemma foldl_hash_cell:
  assumes "board_dims b" "\<forall>p \<in> set ps. in_play (fst p) (snd p)"
  shows "foldl (hash_cell (zobrist_init rnd) b) (Some h) ps =
         Some (xor_fold (map (key_val (zobrist_init rnd)) (map (stone_at b) (filter (occupied b) ps))) h)"
  using assms(2)
proof (induction ps arbitrary: h)
  case Nil
  then show ?case by (simp add: xor_fold_def)
next
  case (Cons p ps)
  obtain x y where p: "p = (x, y)" by (cases p)
  from Cons.prems p have ip: "in_play x y" by simp
  then obtain c where c: "cell_at b x y = Some c" using board_dims_in_play[OF assms(1)] by blast
  have kb: "\<exists>v. hash_table (zobrist_init rnd) (x, y, BLACK) = Some v"
    and kw: "\<exists>v. hash_table (zobrist_init rnd) (x, y, WHITE) = Some v"
    using zobrist_init_key[of x y BLACK rnd] zobrist_init_key[of x y WHITE rnd] ip by auto
  from Cons.prems have rest: "\<forall>p \<in> set ps. in_play (fst p) (snd p)" by simp
  show ?case
    using kb kw c Cons.IH[OF rest]
    by (auto simp: p occupied_def stone_at_def key_val_def xor_fold_def)
qed

lemma place_all_fold:
  assumes "\<forall>s \<in> set stones. s \<in> dom (hash_table z)"
  shows "place_all z h stones = Some (xor_fold (map (key_val z) stones) h)"
  using assms
proof (induction stones arbitrary: h)
  case Nil
  then show ?case by (simp add: xor_fold_def)
next
  case (Cons s stones)
  obtain x y c where s: "s = (x, y, c)" by (cases s)
  from Cons.prems s obtain v where v: "hash_table z (x, y, c) = Some v" by auto
  from Cons.prems have "\<forall>s \<in> set stones. s \<in> dom (hash_table z)" by simp
  from Cons.IH[OF this] v show ?case
    by (simp add: s update_hash_def key_val_def xor_fold_def)
qed

lemma set_board_stones:
  "board_dims b \<Longrightarrow> set (map (stone_at b) (filter (occupied b) play_coords)) = stones_of b"
  by (force simp: stones_of_def occupied_def stone_at_def set_play_coords image_iff)

lemma distinct_board_stones: "distinct (map (stone_at b) (filter (occupied b) play_coords))"
  by (auto simp: distinct_map distinct_play_coords inj_on_def stone_at_def prod_eq_iff)

text \<open>
  C6. For every board of 21 by 21 cells and every side to move, the hash computed from
  scratch equals the hash built from 0 by one update\_hash per stone on the board, the
  stones taken in any order, XORed with the side marker exactly when white is to move;
  and update\_hash applied twice for the same playable coordinate and colour gives back
  the hash it started from.
\<close>

theorem full_hash_is_incremental_hash:
  assumes "board_dims b" "distinct stones" "set stones = stones_of b"
  shows "compute_hash (zobrist_init rnd) b color =
           map_option (\<lambda>h. if color = WHITE then toggle_side (zobrist_init rnd) h else h)
             (place_all (zobrist_init rnd) 0 stones)
         \<and> compute_hash (zobrist_init rnd) b color \<noteq> None
         \<and> (in_play x y \<and> (c = BLACK \<or> c = WHITE) \<longrightarrow>
              update_hash (zobrist_init rnd) h x y c
                \<bind> (\<lambda>h'. update_hash (zobrist_init rnd) h' x y c) = Some h)"
proof -
  let ?z = "zobrist_init rnd"
  let ?bs = "map (stone_at b) (filter (occupied b) play_coords)"
  have ip: "\<forall>p \<in> set play_coords. in_play (fst p) (snd p)" by (auto simp: set_play_coords)
  have full: "foldl (hash_cell ?z b) (Some 0) play_coords = Some (xor_fold (map (key_val ?z) ?bs) 0)"
    by (rule foldl_hash_cell[OF assms(1) ip])
  have keys: "\<forall>s \<in> set stones. s \<in> dom (hash_table ?z)"
    using assms(3) zobrist_init_key by (auto simp: stones_of_def)
  have inc: "place_all ?z 0 stones = Some (xor_fold (map (key_val ?z) stones) 0)"
    by (rule place_all_fold[OF keys])
  have "mset stones = mset ?bs"
    using assms(2,3) distinct_board_stones set_board_stones[OF assms(1)]
    by (metis set_eq_iff_mset_eq_distinct)
  then have "mset (map (key_val ?z) stones) = mset (map (key_val ?z) ?bs)" by (metis mset_map)
  then have eq: "xor_fold (map (key_val ?z) stones) 0 = xor_fold (map (key_val ?z) ?bs) 0"
    by (rule xor_fold_perm)
  have twice: "in_play x y \<and> (c = BLACK \<or> c = WHITE) \<longrightarrow>
      update_hash ?z h x y c \<bind> (\<lambda>h'. update_hash ?z h' x y c) = Some h"
  proof
    assume "in_play x y \<and> (c = BLACK \<or> c = WHITE)"
    then obtain v where "hash_table ?z (x, y, c) = Some v"
      using zobrist_init_key[of x y c rnd] by auto
    then show "update_hash ?z h x y c \<bind> (\<lambda>h'. update_hash ?z h' x y c) = Some h"
      by (simp add: update_hash_def xor_twice)
  qed
  show ?thesis using full inc eq twice
    by (simp add: compute_hash_def toggle_side_def)
qed

theorem full_hash_is_incremental_hash_witness:
  "board_dims two_stone_board \<and> distinct [(10, 11, WHITE), (10, 10, BLACK)] \<and>
   set [(10, 11, WHITE), (10, 10, BLACK)] = stones_of two_stone_board \<and>
   in_play 10 10 \<and>
   compute_hash (zobrist_init int) two_stone_board WHITE =
     map_option (toggle_side (zobrist_init int))
       (place_all (zobrist_init int) 0 [(10, 11, WHITE), (10, 10, BLACK)]) \<and>
   compute_hash (zobrist_init int) two_stone_board WHITE \<noteq> None \<and>
   update_hash (zobrist_init int) 5 10 10 BLACK
     \<bind> (\<lambda>h'. update_hash (zobrist_init int) h' 10 10 BLACK) = Some 5"
proof -
  have h1: "board_dims two_stone_board" by code_simp
  have h2: "distinct [(10, 11, WHITE), (10, 10, BLACK)]" by simp
  have "set (map (stone_at two_stone_board) (filter (occupied two_stone_board) play_coords))
          = {(10, 11, WHITE), (10, 10, BLACK)}"
    by code_simp
  then have h3: "set [(10, 11, WHITE), (10, 10, BLACK)] = stones_of two_stone_board"
    using set_board_stones [OF h1] by simp
  have h4: "in_play 10 10" by (simp add: in_play_def)
  note t = full_hash_is_incremental_hash [OF h1 h2 h3, of int WHITE 10 10 BLACK 5]
  from t have c1: "compute_hash (zobrist_init int) two_stone_board WHITE =
     map_option (toggle_side (zobrist_init int))
       (place_all (zobrist_init int) 0 [(10, 11, WHITE), (10, 10, BLACK)])"
    by (simp cong: map_option_cong)
  from t have c2: "compute_hash (zobrist_init int) two_stone_board WHITE \<noteq> None"
    by blast
  from t h4 have c3: "update_hash (zobrist_init int) 5 10 10 BLACK
     \<bind> (\<lambda>h'. update_hash (zobrist_init int) h' 10 10 BLACK) = Some 5"
    by blast
  show ?thesis
    using h1 h2 h3 h4 c1 c2 c3 by blast
qed

subsection \<open>The game-end score of the recursive search\<close>

lemma depth_at_ply_eq: "depth_at_ply D p = D - int p"
  by (induction p) (simp_all add: depth_at_ply_def child_depth_def)

text \<open>
  C9. What the code does where the claim asks for shorter wins to score higher: on a line
  searched without reductions, each further ply raises the score returned for a win of the
  engine by one and lowers the score returned for a loss by one. With
  \<^verbatim>\<open>MAXINT = 20000\<close>, \<^verbatim>\<open>MININT = -20000\<close> and a root depth of 4, a win found at ply 1
  scores 19997 and a win found at ply 3 scores 19999; a loss at ply 2 scores -19998 and a
  loss at ply 4 scores -20000.
\<close>

theorem game_end_score_by_ply:
  "game_end_score maxint minint c me (depth_at_ply D (Suc p)) =
     (if c = me then game_end_score maxint minint c me (depth_at_ply D p) - 1
      else game_end_score maxint minint c me (depth_at_ply D p) + 1) \<and>
   \<bar>game_end_score 20000 (- 20000) WHITE BLACK (depth_at_ply 4 1)\<bar> = 19997 \<and>
   \<bar>game_end_score 20000 (- 20000) WHITE BLACK (depth_at_ply 4 3)\<bar> = 19999 \<and>
   game_end_score 20000 (- 20000) BLACK BLACK (depth_at_ply 4 2) = - 19998 \<and>
   game_end_score 20000 (- 20000) BLACK BLACK (depth_at_ply 4 4) = - 20000"
  by (simp add: game_end_score_def depth_at_ply_eq)

subsection \<open>The transposition table\<close>











text \<open>
  C8. What the hard cleanup does where the claim asks for the shallowest of the oldest
  entries to leave first: in a table of capacity 4 holding entries of generation 0 with
  depths 3, 1, 7, 2 under the keys 1, 2, 3, 4, the store of key 5 brings the count to 5,
  the cleanup removes one entry (5 div 5), and the entry removed is key 3, the deepest
  entry of the oldest generation; key 2, the shallowest, stays.
\<close>

theorem cleanup_removes_deepest_first:
  "map fst (table (store (sample_table\<lparr>max_size := 4\<rparr>) 5 4 0 EXACT None 0)) = [1, 2, 4, 5] \<and>
   map_of (table (sample_table\<lparr>max_size := 4\<rparr>)) 3 = Some (mk_entry 7 0) \<and>
   map_of (table (sample_table\<lparr>max_size := 4\<rparr>)) 2 = Some (mk_entry 1 0)"
  by (simp add: sample_table_def mk_entry_def store_def new_entry_def write_entry_def
      cleanup_def dict_del_def)

subsection \<open>The win check\<close>

lemma run_length_unfold:
  "run_length b s x y dx dy =
     (if dx = 0 \<and> dy = 0 then None
      else (case cell_at b x y of None \<Rightarrow> None
            | Some c \<Rightarrow> if c = s then map_option Suc (run_length b s (x + dx) (y + dy) dx dy)
                        else Some 0))"
  by (rule run_length.simps)

lemma run_length_SomeD:
  assumes "run_length b s x y dx dy = Some n"
  shows "\<exists>c. cell_at b x y = Some c \<and>
           (if c = s then \<exists>n'. n = Suc n' \<and> run_length b s (x + dx) (y + dy) dx dy = Some n'
            else n = 0)"
  using assms by (subst (asm) run_length_unfold) (auto split: if_splits option.splits)

lemma run_length_Some:
  "run_length b s x y dx dy = Some n \<Longrightarrow>
     (\<forall>i<n. cell_at b (x + int i * dx) (y + int i * dy) = Some s) \<and>
     (\<exists>c. cell_at b (x + int n * dx) (y + int n * dy) = Some c \<and> c \<noteq> s)"
proof (induction n arbitrary: x y)
  case 0
  from run_length_SomeD[OF 0] show ?case by (auto split: if_splits)
next
  case (Suc n)
  from run_length_SomeD[OF Suc.prems] have here: "cell_at b x y = Some s"
    and rest: "run_length b s (x + dx) (y + dy) dx dy = Some n"
    by (auto split: if_splits)
  from Suc.IH[OF rest] have
    a: "\<forall>i<n. cell_at b (x + dx + int i * dx) (y + dy + int i * dy) = Some s" and
    z: "\<exists>c. cell_at b (x + dx + int n * dx) (y + dy + int n * dy) = Some c \<and> c \<noteq> s"
    by auto
  have "cell_at b (x + int i * dx) (y + int i * dy) = Some s" if "i < Suc n" for i
  proof (cases i)
    case 0
    then show ?thesis using here by simp
  next
    case (Suc j)
    with that a have "cell_at b (x + dx + int j * dx) (y + dy + int j * dy) = Some s" by simp
    then show ?thesis by (simp add: Suc algebra_simps)
  qed
  moreover from z have "\<exists>c. cell_at b (x + int (Suc n) * dx) (y + int (Suc n) * dy) = Some c \<and> c \<noteq> s"
    by (simp add: algebra_simps)
  ultimately show ?case by blast
qed

lemma board_dims_cell:
  assumes "board_dims b" "0 \<le> x" "x \<le> 20" "0 \<le> y" "y \<le> 20"
  shows "\<exists>c. cell_at b x y = Some c"
proof -
  from assms have x: "nat x < length b" by (auto simp: board_dims_def)
  then have "b ! nat x \<in> set b" by simp
  with assms(1) have "length (b ! nat x) = 21" by (simp add: board_dims_def list_all_iff)
  with x assms show ?thesis by (auto simp: cell_at_nonneg board_dims_def)
qed

lemma well_formed_border:
  assumes "well_formed b" "0 \<le> x" "x \<le> 20" "0 \<le> y" "y \<le> 20"
    "x = 0 \<or> x = 20 \<or> y = 0 \<or> y = 20"
  shows "cell_at b x y = Some BORDER"
  using assms unfolding well_formed_def by auto


lemma run_length_total:
  "well_formed b \<Longrightarrow> s \<noteq> BORDER \<Longrightarrow> 0 \<le> x \<Longrightarrow> x \<le> 20 \<Longrightarrow> 0 \<le> y \<Longrightarrow> y \<le> 20 \<Longrightarrow>
   dx \<in> {- 1, 0, 1} \<Longrightarrow> dy \<in> {- 1, 0, 1} \<Longrightarrow> \<not> (dx = 0 \<and> dy = 0) \<Longrightarrow>
   \<exists>n. run_length b s x y dx dy = Some n"
proof (induction b s x y dx dy rule: run_length.induct)
  case (1 board stone x y dx dy)
  from "1.prems" have bd: "board_dims board" by (simp add: well_formed_def)
  from board_dims_cell[OF bd "1.prems"(3-6)] obtain c where c: "cell_at board x y = Some c"
    by blast
  show ?case
  proof (cases "c = stone")
    case False
    with c "1.prems"(9) show ?thesis by (subst run_length_unfold) simp
  next
    case True
    have inner: "1 \<le> x \<and> x \<le> 19 \<and> 1 \<le> y \<and> y \<le> 19"
    proof (rule ccontr)
      assume "\<not> ?thesis"
      with "1.prems"(3-6) have "x = 0 \<or> x = 20 \<or> y = 0 \<or> y = 20" by auto
      from well_formed_border[OF "1.prems"(1) "1.prems"(3-6) this] c True "1.prems"(2)
      show False by simp
    qed
    with "1.prems"(7,8) have rng: "0 \<le> x + dx" "x + dx \<le> 20" "0 \<le> y + dy" "y + dy \<le> 20"
      by auto
    from "1.IH"[OF "1.prems"(9) c True "1.prems"(1,2) rng "1.prems"(7-9)]
    obtain n where "run_length board stone (x + dx) (y + dy) dx dy = Some n" by blast
    with c True "1.prems"(9) show ?thesis by (subst run_length_unfold) simp
  qed
qed


lemma count_iff_run:
  assumes here: "cell_at b x y = Some c"
    and f: "run_length b c (x + dx) (y + dy) dx dy = Some fwd"
    and g: "run_length b c (x - dx) (y - dy) (- dx) (- dy) = Some bwd"
  shows "(1 + fwd + bwd \<ge> 6) \<longleftrightarrow> run_through b c (x, y) (dx, dy)"
proof -
  from run_length_Some[OF f] have
    fa: "\<And>i. i < fwd \<Longrightarrow> cell_at b (x + dx + int i * dx) (y + dy + int i * dy) = Some c" and
    fz: "cell_at b (x + dx + int fwd * dx) (y + dy + int fwd * dy) \<noteq> Some c"
    by auto
  from run_length_Some[OF g] have
    ga: "\<And>i. i < bwd \<Longrightarrow> cell_at b (x - dx + int i * (- dx)) (y - dy + int i * (- dy)) = Some c" and
    gz: "cell_at b (x - dx + int bwd * (- dx)) (y - dy + int bwd * (- dy)) \<noteq> Some c"
    by auto
  have inside: "cell_at b (x + i * dx) (y + i * dy) = Some c"
    if "- int bwd \<le> i" "i \<le> int fwd" for i
  proof -
    consider "i = 0" | "0 < i" | "i < 0" by linarith
    then show ?thesis
    proof cases
      case 1
      then show ?thesis using here by simp
    next
      case 2
      with that have "nat (i - 1) < fwd" by linarith
      from fa[OF this] 2 show ?thesis by (simp add: algebra_simps)
    next
      case 3
      with that have "nat (- i - 1) < bwd" by linarith
      from ga[OF this] 3 show ?thesis by (simp add: algebra_simps)
    qed
  qed
  have stopF: "cell_at b (x + (int fwd + 1) * dx) (y + (int fwd + 1) * dy) \<noteq> Some c"
    using fz by (simp add: algebra_simps)
  have stopB: "cell_at b (x + (- int bwd - 1) * dx) (y + (- int bwd - 1) * dy) \<noteq> Some c"
    using gz by (simp add: algebra_simps)
  show ?thesis
  proof
    assume "1 + fwd + bwd \<ge> 6"
    then have "- int bwd \<le> 0 \<and> 0 \<le> int fwd \<and> int fwd - (- int bwd) + 1 \<ge> 6 \<and>
      (\<forall>i. - int bwd \<le> i \<and> i \<le> int fwd \<longrightarrow> cell_at b (x + i * dx) (y + i * dy) = Some c)"
      using inside by auto
    then show "run_through b c (x, y) (dx, dy)"
      unfolding run_through_def fst_conv snd_conv by blast
  next
    assume "run_through b c (x, y) (dx, dy)"
    then obtain lo hi where lh: "lo \<le> 0" "0 \<le> hi" "hi - lo + 1 \<ge> 6"
      and allc: "\<And>i. lo \<le> i \<Longrightarrow> i \<le> hi \<Longrightarrow> cell_at b (x + i * dx) (y + i * dy) = Some c"
      unfolding run_through_def fst_conv snd_conv by blast
    have "hi \<le> int fwd"
    proof (rule ccontr)
      assume "\<not> hi \<le> int fwd"
      then have "lo \<le> int fwd + 1" "int fwd + 1 \<le> hi" using lh by auto
      from allc[OF this] stopF show False by simp
    qed
    moreover have "- int bwd \<le> lo"
    proof (rule ccontr)
      assume "\<not> - int bwd \<le> lo"
      then have "lo \<le> - int bwd - 1" "- int bwd - 1 \<le> hi" using lh by auto
      from allc[OF this] stopB show False by simp
    qed
    ultimately show "1 + fwd + bwd \<ge> 6" using lh by linarith
  qed
qed

lemma check_line_spec:
  assumes wf: "well_formed b" and d: "d \<in> set directions"
  shows "check_line b d p =
     Some (in_play (fst p) (snd p) \<and>
           (\<exists>c. (c = BLACK \<or> c = WHITE) \<and> cell_at b (fst p) (snd p) = Some c \<and>
                run_through b c p d))"
proof (cases "in_play (fst p) (snd p)")
  case False
  then show ?thesis by (simp add: check_line_def Let_def)
next
  case True
  obtain x y where p: "p = (x, y)" by (cases p)
  obtain dx dy where dd: "d = (dx, dy)" by (cases d)
  from d dd have dr: "dx \<in> {- 1, 0, 1}" "dy \<in> {- 1, 0, 1}" "\<not> (dx = 0 \<and> dy = 0)"
    by (auto simp: directions_def)
  then have dr': "- dx \<in> {- 1, 0, 1}" "- dy \<in> {- 1, 0, 1}" "\<not> (- dx = 0 \<and> - dy = 0)"
    by auto
  from True p have ip: "1 \<le> x" "x \<le> 19" "1 \<le> y" "y \<le> 19" by (auto simp: in_play_def)
  from wf have bd: "board_dims b" by (simp add: well_formed_def)
  from board_dims_cell[OF bd, of x y] ip obtain c where c: "cell_at b x y = Some c" by auto
  show ?thesis
  proof (cases "c = BORDER \<or> c = NOSTONE")
    case True
    with c \<open>in_play (fst p) (snd p)\<close> show ?thesis
      by (auto simp: check_line_def Let_def p)
  next
    case False
    then have col: "c = BLACK \<or> c = WHITE" by (cases c) auto
    then have nb: "c \<noteq> BORDER" by auto
    have r1: "0 \<le> x + dx" "x + dx \<le> 20" "0 \<le> y + dy" "y + dy \<le> 20"
      using ip dr by auto
    have r2: "0 \<le> x - dx" "x - dx \<le> 20" "0 \<le> y - dy" "y - dy \<le> 20"
      using ip dr by auto
    from run_length_total[OF wf nb r1 dr] obtain fwd where
      f: "run_length b c (x + dx) (y + dy) dx dy = Some fwd" by blast
    from run_length_total[OF wf nb r2 dr'] obtain bwd where
      g: "run_length b c (x - dx) (y - dy) (- dx) (- dy) = Some bwd" by blast
    note eq = count_iff_run[OF c f g]
    have "check_line b d p = Some (1 + fwd + bwd \<ge> 6)"
      using c False f g \<open>in_play (fst p) (snd p)\<close>
      by (simp add: check_line_def Let_def p dd)
    also have "\<dots> = Some (run_through b c p d)" using eq by (simp add: p dd)
    also have "\<dots> = Some (in_play (fst p) (snd p) \<and>
           (\<exists>c. (c = BLACK \<or> c = WHITE) \<and> cell_at b (fst p) (snd p) = Some c \<and>
                run_through b c p d))"
      using c col \<open>in_play (fst p) (snd p)\<close> by (auto simp: p)
    finally show ?thesis .
  qed
qed

lemma directions_are_spec_axes: "set directions = spec_axes"
  by (simp add: directions_def spec_axes_def)

lemma first_true_all_Some:
  assumes "\<And>a. a \<in> set as \<Longrightarrow> f a = Some (P a)"
  shows "first_true f as = Some (\<exists>a \<in> set as. P a)"
  using assms by (induction as) auto

text \<open>
  C4. For every well-formed board and every move, is\_win\_by\_premove returns, and it
  returns true if and only if some coordinate of the move lies in [1,19] x [1,19], holds
  a black or white stone, and has a run of at least 6 stones of that colour passing
  through it along one of the four axes (the two grid axes and the two diagonals).
\<close>

theorem is_win_by_premove_iff_six:
  assumes "well_formed b"
  shows "is_win_by_premove b m = Some (spec_win b m)"
proof -
  let ?P = "\<lambda>(d, p). in_play (fst p) (snd p) \<and>
           (\<exists>c. (c = BLACK \<or> c = WHITE) \<and> cell_at b (fst p) (snd p) = Some c \<and>
                run_through b c p d)"
  have "is_win_by_premove b m = Some (\<exists>a \<in> set (List.product directions (positions m)). ?P a)"
    unfolding is_win_by_premove_def
    by (rule first_true_all_Some) (auto simp: check_line_spec[OF assms])
  also have "(\<exists>a \<in> set (List.product directions (positions m)). ?P a) = spec_win b m"
    unfolding spec_win_def directions_are_spec_axes [symmetric] by auto
  finally show ?thesis .
qed

theorem is_win_by_premove_iff_six_witness:
  "well_formed six_board \<and> well_formed column_six_board \<and>
   well_formed diagonal_six_board \<and> well_formed antidiagonal_six_board \<and>
   well_formed five_board \<and>
   is_win_by_premove six_board \<lparr>first_pos = (10, 12), second_pos = (3, 3), score = 0\<rparr>
     = Some True \<and>
   spec_win six_board \<lparr>first_pos = (10, 12), second_pos = (3, 3), score = 0\<rparr> \<and>
   is_win_by_premove column_six_board \<lparr>first_pos = (3, 3), second_pos = (7, 10), score = 0\<rparr>
     = Some True \<and>
   spec_win column_six_board \<lparr>first_pos = (3, 3), second_pos = (7, 10), score = 0\<rparr> \<and>
   is_win_by_premove diagonal_six_board \<lparr>first_pos = (5, 5), second_pos = (6, 6), score = 0\<rparr>
     = Some True \<and>
   spec_win diagonal_six_board \<lparr>first_pos = (5, 5), second_pos = (6, 6), score = 0\<rparr> \<and>
   is_win_by_premove antidiagonal_six_board \<lparr>first_pos = (10, 10), second_pos = (2, 2), score = 0\<rparr>
     = Some True \<and>
   spec_win antidiagonal_six_board \<lparr>first_pos = (10, 10), second_pos = (2, 2), score = 0\<rparr> \<and>
   is_win_by_premove five_board \<lparr>first_pos = (10, 12), second_pos = (10, 14), score = 0\<rparr>
     = Some False \<and>
   \<not> spec_win five_board \<lparr>first_pos = (10, 12), second_pos = (10, 14), score = 0\<rparr>"
proof -
  have h1: "well_formed six_board" by code_simp
  have h2: "well_formed column_six_board" by code_simp
  have h3: "well_formed diagonal_six_board" by code_simp
  have h4: "well_formed antidiagonal_six_board" by code_simp
  have h5: "well_formed five_board" by code_simp
  have e1: "is_win_by_premove six_board \<lparr>first_pos = (10, 12), second_pos = (3, 3), score = 0\<rparr>
      = Some True"
    by code_simp
  have e2: "is_win_by_premove column_six_board \<lparr>first_pos = (3, 3), second_pos = (7, 10), score = 0\<rparr>
      = Some True"
    by code_simp
  have e3: "is_win_by_premove diagonal_six_board \<lparr>first_pos = (5, 5), second_pos = (6, 6), score = 0\<rparr>
      = Some True"
    by code_simp
  have e4: "is_win_by_premove antidiagonal_six_board
      \<lparr>first_pos = (10, 10), second_pos = (2, 2), score = 0\<rparr> = Some True"
    by code_simp
  have e5: "is_win_by_premove five_board \<lparr>first_pos = (10, 12), second_pos = (10, 14), score = 0\<rparr>
      = Some False"
    by code_simp
  from e1 is_win_by_premove_iff_six [OF h1, of "\<lparr>first_pos = (10, 12), second_pos = (3, 3), score = 0\<rparr>"]
  have s1: "spec_win six_board \<lparr>first_pos = (10, 12), second_pos = (3, 3), score = 0\<rparr>" by simp
  from e2 is_win_by_premove_iff_six [OF h2, of "\<lparr>first_pos = (3, 3), second_pos = (7, 10), score = 0\<rparr>"]
  have s2: "spec_win column_six_board \<lparr>first_pos = (3, 3), second_pos = (7, 10), score = 0\<rparr>" by simp
  from e3 is_win_by_premove_iff_six [OF h3, of "\<lparr>first_pos = (5, 5), second_pos = (6, 6), score = 0\<rparr>"]
  have s3: "spec_win diagonal_six_board \<lparr>first_pos = (5, 5), second_pos = (6, 6), score = 0\<rparr>" by simp
  from e4 is_win_by_premove_iff_six [OF h4, of "\<lparr>first_pos = (10, 10), second_pos = (2, 2), score = 0\<rparr>"]
  have s4: "spec_win antidiagonal_six_board \<lparr>first_pos = (10, 10), second_pos = (2, 2), score = 0\<rparr>"
    by simp
  from e5 is_win_by_premove_iff_six [OF h5, of "\<lparr>first_pos = (10, 12), second_pos = (10, 14), score = 0\<rparr>"]
  have s5: "\<not> spec_win five_board \<lparr>first_pos = (10, 12), second_pos = (10, 14), score = 0\<rparr>" by simp
  from h1 h2 h3 h4 h5 e1 e2 e3 e4 e5 s1 s2 s3 s4 s5 show ?thesis by blast
qed

subsection \<open>Position analysis and the tactical shortcut\<close>

lemma guarded_eq_total: "board_dims b \<Longrightarrow> \<exists>r. guarded_eq b x y v = Some r"
  using board_dims_in_play[of b x y] by (auto simp: guarded_eq_def)

lemma guarded_eq_True: "guarded_eq b x y NOSTONE = Some True \<Longrightarrow> empty_playable b (x, y)"
  by (auto simp: guarded_eq_def empty_playable_def split: if_splits)

lemma guarded_run_total:
  "board_dims b \<Longrightarrow> \<not> (dx = 0 \<and> dy = 0) \<Longrightarrow> \<exists>n. guarded_run b color x y dx dy = Some n"
proof (induction b color x y dx dy rule: guarded_run.induct)
  case (1 board color x y dx dy)
  from guarded_eq_total[OF "1.prems"(1)] obtain same where
    s: "guarded_eq board x y color = Some same" by blast
  show ?case
  proof (cases same)
    case False
    with s "1.prems"(2) show ?thesis by (subst guarded_run.simps) simp
  next
    case True
    from "1.IH"[OF "1.prems"(2) s True "1.prems"] obtain n where
      "guarded_run board color (x + dx) (y + dy) dx dy = Some n" by blast
    with s True "1.prems"(2) show ?thesis by (subst guarded_run.simps) simp
  qed
qed

lemma analyze_line_total:
  assumes "board_dims b" "d \<in> set directions"
  shows "\<exists>r. analyze_line b x y d color = Some r"
proof -
  obtain dx dy where d: "d = (dx, dy)" by (cases d)
  with assms(2) have nz: "\<not> (dx = 0 \<and> dy = 0)" "\<not> (- dx = 0 \<and> - dy = 0)"
    by (auto simp: directions_def)
  from guarded_run_total[OF assms(1) nz(1)] obtain fwd where
    f: "guarded_run b color (x + dx) (y + dy) dx dy = Some fwd" by blast
  from guarded_run_total[OF assms(1) nz(2)] obtain bk where
    g: "guarded_run b color (x - dx) (y - dy) (- dx) (- dy) = Some bk" by blast
  obtain bo where bo: "guarded_eq b (x - int bk * dx - dx) (y - int bk * dy - dy) NOSTONE = Some bo"
    using guarded_eq_total[OF assms(1)] by blast
  obtain ao where ao: "guarded_eq b (x - int bk * dx + (1 + int fwd) * dx)
      (y - int bk * dy + (1 + int fwd) * dy) NOSTONE = Some ao"
    using guarded_eq_total[OF assms(1)] by blast
  obtain gp where gp: "guarded_eq b (x - int bk * dx + (1 + int fwd) * dx + dx)
      (y - int bk * dy + (1 + int fwd) * dy + dy) color = Some gp"
    using guarded_eq_total[OF assms(1)] by blast
  show ?thesis
    using f g bo ao gp
    by (simp add: analyze_line_def d Let_def split: prod.splits)
qed

lemma analyze_line_wins:
  assumes "analyze_line b x y d color = Some (Some t)"
  shows "\<forall>p \<in> set (win_positions t). empty_playable b p"
proof -
  obtain dx dy where d: "d = (dx, dy)" by (cases d)
  from assms obtain fwd bk bo ao where
    bo: "guarded_eq b (x - int bk * dx - dx) (y - int bk * dy - dy) NOSTONE = Some bo" and
    ao: "guarded_eq b (x - int bk * dx + (1 + int fwd) * dx)
      (y - int bk * dy + (1 + int fwd) * dy) NOSTONE = Some ao" and
    sub: "set (win_positions t) \<subseteq>
       (if bo then {(x - int bk * dx - dx, y - int bk * dy - dy)} else {}) \<union>
       (if ao then {(x - int bk * dx + (1 + int fwd) * dx,
                     y - int bk * dy + (1 + int fwd) * dy)} else {})"
    by (auto simp: analyze_line_def d Let_def split: prod.splits if_splits option.splits
        bind_splits)
  show ?thesis
    using sub guarded_eq_True bo ao by (auto split: if_splits)
qed


lemma foldl_option_inv:
  assumes step: "\<And>a x. x \<in> set xs \<Longrightarrow> I a \<Longrightarrow> \<exists>a'. f (Some a) x = Some a' \<and> I a'"
    and init: "I a0"
  shows "\<exists>a'. foldl f (Some a0) xs = Some a' \<and> I a'"
  using assms
proof (induction xs arbitrary: a0)
  case Nil
  then show ?case by simp
next
  case (Cons x xs)
  from Cons.prems(1)[of x a0] Cons.prems(2) obtain a1 where
    a1: "f (Some a0) x = Some a1" "I a1" by auto
  have "\<exists>a'. foldl f (Some a1) xs = Some a' \<and> I a'"
    by (rule Cons.IH) (use Cons.prems(1) a1 in auto)
  with a1 show ?case by simp
qed

lemma add_threat_moves_empty:
  assumes "moves_empty b a" "\<forall>p \<in> set (win_positions t). empty_playable b p"
  shows "moves_empty b (add_threat a t)"
  using assms by (auto simp: moves_empty_def add_threat_def)

lemma analyze_direction_inv:
  assumes "board_dims b" "d \<in> set directions" "moves_empty b a"
  shows "\<exists>a'. analyze_direction b color x y (Some a) d = Some a' \<and> moves_empty b a'"
proof -
  from analyze_line_total[OF assms(1,2)] obtain r where
    r: "analyze_line b x y d color = Some r" by blast
  show ?thesis
  proof (cases r)
    case None
    with r assms(3) show ?thesis by (simp add: analyze_direction_def)
  next
    case (Some t)
    with r analyze_line_wins have "\<forall>p \<in> set (win_positions t). empty_playable b p" by blast
    from add_threat_moves_empty[OF assms(3) this] r Some show ?thesis
      by (simp add: analyze_direction_def)
  qed
qed

lemma analyze_cell_inv:
  assumes "board_dims b" "p \<in> set play_coords" "moves_empty b a"
  shows "\<exists>a'. analyze_cell b color (Some a) p = Some a' \<and> moves_empty b a'"
proof -
  from assms(2) have "in_play (fst p) (snd p)" by (auto simp: set_play_coords)
  from board_dims_in_play[OF assms(1) this] obtain c where
    c: "cell_at b (fst p) (snd p) = Some c" by blast
  show ?thesis
  proof (cases "c = color")
    case False
    with c assms(3) show ?thesis by (simp add: analyze_cell_def)
  next
    case True
    have "\<exists>a'. foldl (analyze_direction b color (fst p) (snd p)) (Some a) directions = Some a'
        \<and> moves_empty b a'"
      by (rule foldl_option_inv) (use analyze_direction_inv[OF assms(1)] assms(3) in auto)
    with c True show ?thesis by (simp add: analyze_cell_def)
  qed
qed

lemma analyze_position_moves_empty:
  assumes "board_dims b"
  shows "\<exists>r. analyze_position b color = Some r \<and>
           (\<forall>p \<in> set (winning_moves r) \<union> set (defensive_moves r).
              in_play (fst p) (snd p) \<and> cell_at b (fst p) (snd p) = Some NOSTONE)"
proof -
  let ?a0 = "\<lparr>threats = [], analysis_score = 0, critical_level = 0,
                     winning_moves = [], defensive_moves = []\<rparr>"
  have "moves_empty b ?a0" by (simp add: moves_empty_def)
  then have "\<exists>a'. foldl (analyze_cell b color) (Some ?a0) play_coords = Some a' \<and> moves_empty b a'"
    by (rule foldl_option_inv[rotated]) (use analyze_cell_inv[OF assms] in auto)
  then obtain a where a: "foldl (analyze_cell b color) (Some ?a0) play_coords = Some a"
    and m: "moves_empty b a" by blast
  from a have "analyze_position b color =
      Some (a\<lparr>winning_moves := remdups (winning_moves a),
               defensive_moves := remdups (defensive_moves a)\<rparr>)"
    by (simp add: analyze_position_def)
  moreover from m have "\<forall>p \<in> set (remdups (winning_moves a)) \<union> set (remdups (defensive_moves a)).
      in_play (fst p) (snd p) \<and> cell_at b (fst p) (snd p) = Some NOSTONE"
    by (auto simp: moves_empty_def empty_playable_def)
  ultimately show ?thesis by simp
qed









subsection \<open>The move generator\<close>

lemma set_cell_dims:
  assumes "board_dims b" "in_play x y"
  shows "\<exists>b'. set_cell b x y v = Some b' \<and> board_dims b'"
proof -
  from assms have x: "0 \<le> x" "nat x < length b" "x < int (length b)" and y: "0 \<le> y" "y < 21"
    by (auto simp: board_dims_def in_play_def)
  then have "b ! nat x \<in> set b" by simp
  with assms(1) have len: "length (b ! nat x) = 21" by (simp add: board_dims_def list_all_iff)
  have "board_dims (b[nat x := (b ! nat x)[nat y := v]])"
    using assms(1) len x
    by (auto simp: board_dims_def list_all_iff dest!: set_update_subset_insert[THEN subsetD])
  with x y len show ?thesis by (simp add: set_cell_nonneg)
qed

lemma try_cell_dims:
  assumes "board_dims b" "p \<in> set play_coords"
  shows "\<exists>b' ms'. try_cell color (Some (b, ms)) p = Some (b', ms') \<and> board_dims b'"
proof -
  from assms(2) have ip: "in_play (fst p) (snd p)" by (auto simp: set_play_coords)
  from board_dims_in_play[OF assms(1) ip] obtain c where
    c: "cell_at b (fst p) (snd p) = Some c" by blast
  show ?thesis
  proof (cases "c = NOSTONE")
    case False
    with c assms(1) show ?thesis by (simp add: try_cell_def)
  next
    case True
    from set_cell_dims[OF assms(1) ip] obtain b1 where
      b1: "set_cell b (fst p) (snd p) color = Some b1" "board_dims b1" by blast
    from analyze_position_moves_empty[OF b1(2)] obtain a where
      a: "analyze_position b1 color = Some a" by blast
    from set_cell_dims[OF b1(2) ip] obtain b2 where
      b2: "set_cell b1 (fst p) (snd p) NOSTONE = Some b2" "board_dims b2" by blast
    from c True b1 a b2 show ?thesis by (simp add: try_cell_def)
  qed
qed

lemma detect_critical_moves_total:
  assumes "board_dims b"
  shows "\<exists>b' ms. detect_critical_moves b color = Some (b', ms) \<and> board_dims b'"
proof -
  have "\<exists>s. foldl (try_cell color) (Some (b, [])) play_coords = Some s \<and> board_dims (fst s)"
  proof (rule foldl_option_inv)
    show "board_dims (fst (b, []))" using assms by simp
  next
    fix s :: "board \<times> critical_move list" and p
    assume "p \<in> set play_coords" "board_dims (fst s)"
    from try_cell_dims[OF this(2,1), of color "snd s"]
    show "\<exists>s'. try_cell color (Some s) p = Some s' \<and> board_dims (fst s')" by auto
  qed
  then show ?thesis by (auto simp: detect_critical_moves_def)
qed

lemma generate_critical_moves_black:
  assumes "board_dims b" "color \<noteq> WHITE"
  shows "generate_critical_moves tiers b color max_moves = Inl AttributeError"
  using detect_critical_moves_total[OF assms(1), of color] assms(2)
  by (auto simp: generate_critical_moves_def raising_def)

text \<open>
  C2. What generate\_moves does where the claim asks for a non-empty list: for black to
  move, no principal-variation move, no immediate win for either side and a level-4
  threat on the board, the call raises AttributeError, for every depth and every
  max\_moves, whatever the bodies of the tiers compute.
\<close>

theorem generate_moves_raises_for_black:
  "generate_moves tiers straight_four_board BLACK depth max_moves None = Inl AttributeError"
proof -
  have bd: "board_dims straight_four_board" by code_simp
  have w1: "detect_immediate_win straight_four_board BLACK = Some []" by code_simp
  have w2: "detect_immediate_win straight_four_board WHITE = Some []" by code_simp
  have cr: "critical_situation straight_four_board BLACK = Some True" by code_simp
  show ?thesis
    using w1 w2 cr generate_critical_moves_black [OF bd, of BLACK tiers max_moves]
    by (simp add: generate_moves_def raising_def)
qed

subsection \<open>The key of the transposition table in the search\<close>

lemma foldl_hash_cell_total:
  assumes "board_dims b"
  shows "\<exists>h. foldl (hash_cell (zobrist_init rnd) b) (Some 0) play_coords = Some h"
  using foldl_hash_cell [OF assms, of play_coords rnd 0] by (auto simp: set_play_coords)

lemma foldl_init_counter:
  "snd (foldl (init_step rnd) (tbl, n) ps) = n + 2 * length ps"
proof (induction ps arbitrary: tbl n)
  case Nil
  then show ?case by simp
next
  case (Cons p ps)
  obtain x y where p: "p = (x, y)" by (cases p)
  show ?case unfolding p by (simp add: Cons.IH)
qed

lemma length_play_coords: "length play_coords = 361"
  by (simp add: play_coords_def length_concat comp_def sum_list_triv)

lemma side_to_move_hash_init: "side_to_move_hash (zobrist_init rnd) = rnd 722"
proof -
  obtain tbl n where f: "foldl (init_step rnd) (Map.empty, 0) play_coords = (tbl, n)"
    by (cases "foldl (init_step rnd) (Map.empty, 0) play_coords")
  from foldl_init_counter[of rnd Map.empty 0 play_coords] f have "n = 722"
    by (simp add: length_play_coords)
  with f show ?thesis by (simp add: zobrist_init_def)
qed

lemma compute_hash_other_side:
  assumes "board_dims b"
  shows "compute_hash (zobrist_init rnd) b BLACK \<noteq> None \<and>
         compute_hash (zobrist_init rnd) b WHITE =
           map_option (\<lambda>h. h XOR rnd 722) (compute_hash (zobrist_init rnd) b BLACK)"
proof -
  from foldl_hash_cell_total[OF assms] obtain h where
    h: "foldl (hash_cell (zobrist_init rnd) b) (Some 0) play_coords = Some h" by blast
  then show ?thesis by (simp add: compute_hash_def side_to_move_hash_init)
qed

text \<open>
  C1. What the search does where the claim asks for the Zobrist fingerprint. The node
  with black to move on \<open>opening_board\<close> is not critical; searched at depth 5 it makes the
  null-move call, which enters the node with white to move on the same board at depth 2.
  The Zobrist fingerprints of the two positions differ by the side marker (the value
  drawn last, \<open>rnd 722\<close>), whatever the generator, but the search gives both nodes the
  same key, whatever Python's hash function is: a result stored for black to move at
  depth 4 is returned as a hit to the probe of the null-move child, white to move.
\<close>

theorem tt_key_shared_by_both_sides:
  "null_move_child (opening_board, BLACK, 5) = (opening_board, WHITE, 2) \<and>
   critical_situation opening_board BLACK = Some False \<and>
   node_tt_key py_hash (opening_board, BLACK, 4)
     = node_tt_key py_hash (null_move_child (opening_board, BLACK, 5)) \<and>
   compute_hash (zobrist_init rnd) opening_board BLACK \<noteq> None \<and>
   compute_hash (zobrist_init rnd) opening_board WHITE =
     map_option (\<lambda>h. h XOR rnd 722) (compute_hash (zobrist_init rnd) opening_board BLACK) \<and>
   fst (probe (store fresh_table (node_tt_key py_hash (opening_board, BLACK, 4)) 4 s EXACT mv 0)
          (node_tt_key py_hash (null_move_child (opening_board, BLACK, 5))) 2 alpha beta)
     = (True, Some s, mv)"
proof -
  have bd: "board_dims opening_board" by code_simp
  have cr: "critical_situation opening_board BLACK = Some False" by code_simp
  have pr: "fst (probe (store fresh_table k 4 s EXACT mv 0) k 2 alpha beta) = (True, Some s, mv)" for k
    by (simp add: fresh_table_def store_def write_entry_def new_entry_def probe_def)
  show ?thesis
    using cr compute_hash_other_side[OF bd, of rnd] pr
    by (simp add: null_move_child_def node_tt_key_def alpha_beta_tt_key_def)
qed

end
